theory Spec2Isabelle
  imports Complex_Main "HOL-Library.Sublist" "HOL-Library.Log_Nat"
begin

section \<open>Data\<close>

text \<open>
  The program is \<^verbatim>\<open>app.py\<close>: a Flask handler \<^verbatim>\<open>upload_image\<close> that stores an
  uploaded picture and calls \<^verbatim>\<open>calculate_foot_size\<close>, which runs five OpenCV stages,
  picks the contour of largest area and reports the width of its bounding rectangle
  times a fixed factor.

  Bytes and paths are strings (a \<^typ>\<open>char\<close> is one byte). A contour is the ordered
  list of its integer points; the tuple of contours that \<^verbatim>\<open>cv2.findContours\<close> returns
  is a list, so that "first encountered" has a meaning.
\<close>

type_synonym bytes = string
type_synonym path = string
type_synonym point = "int \<times> int"
type_synonym contour = "point list"

text \<open>
  Exceptions are values. \<open>ValueError\<close> is what Python's \<^verbatim>\<open>max\<close> raises on an empty
  sequence; \<open>Error\<close> stands for every other exception a library call may raise
  (\<^verbatim>\<open>cv2.error\<close>, \<^verbatim>\<open>binascii.Error\<close>, ...).
\<close>

datatype exn = ValueError | Error string

datatype color_code = COLOR_BGR2GRAY
datatype retr_mode = RETR_EXTERNAL
datatype approx_mode = CHAIN_APPROX_SIMPLE

text \<open>
  The image-processing stages are calls into the OpenCV library, which is not part of
  the program. They are parameters of the model: a record of functions over an
  arbitrary array type \<open>'a\<close>, each of which may raise. \<open>imread\<close> is given the
  contents of the file at the path (\<open>None\<close> when there is no such file) and answers
  \<open>None\<close> when it cannot load an image, as \<^verbatim>\<open>cv2.imread\<close> does.
\<close>

record 'a cv2 =
  imread :: "bytes option \<Rightarrow> exn + 'a option"
  cvtColor :: "'a \<Rightarrow> color_code \<Rightarrow> exn + 'a"
  GaussianBlur :: "'a \<Rightarrow> nat \<times> nat \<Rightarrow> nat \<Rightarrow> exn + 'a"
  Canny :: "'a \<Rightarrow> nat \<Rightarrow> nat \<Rightarrow> exn + 'a"
  findContours :: "'a \<Rightarrow> retr_mode \<Rightarrow> approx_mode \<Rightarrow> exn + contour list"

subsection \<open>Logging and the file store\<close>

datatype level = INFO | WARNING | ERROR

text \<open>
  The messages the two functions log, one constructor per \<^verbatim>\<open>logging\<close> call of the
  source, with the values the message interpolates.
\<close>

datatype log_msg =
    CouldNotLoad path               \<comment> \<open>line 52\<close>
  | ImageLoaded path                \<comment> \<open>line 55\<close>
  | LargestContourFound             \<comment> \<open>line 72\<close>
  | BoundingBoxSize int int         \<comment> \<open>line 76: width and height in pixels\<close>
  | FootSizeComputed rat            \<comment> \<open>line 81\<close>
  | NoContourFound                  \<comment> \<open>line 86\<close>
  | CalculationError exn            \<comment> \<open>line 90\<close>
  | RequestWithoutImage             \<comment> \<open>line 101\<close>
  | ImageTypeNotAllowed             \<comment> \<open>line 107\<close>
  | ImageDecoded                    \<comment> \<open>line 115\<close>
  | ImageSaved path                 \<comment> \<open>line 124\<close>
  | SaveFailed                      \<comment> \<open>line 128\<close>
  | FootSizeSucceeded rat           \<comment> \<open>line 135\<close>
  | FootNotDetected                 \<comment> \<open>line 138\<close>
  | RequestError exn                \<comment> \<open>line 142\<close>

record world =
  files :: "path \<rightharpoonup> bytes"
  logged :: "(level \<times> log_msg) list"

definition logging :: "level \<Rightarrow> log_msg \<Rightarrow> world \<Rightarrow> world" where
  "logging lv m s = s\<lparr>logged := logged s @ [(lv, m)]\<rparr>"

section \<open>The measurement\<close>

subsection \<open>Floats\<close>

text \<open>
  A Python float is an IEEE binary64 number. It is modelled by its exact value, a
  rational, and every float operation of the program rounds its exact result to the
  nearest float, a tie going to the even significand. The exponent is not bounded here:
  the values of the program (a pixel count times 0.2) stay far from overflow and from
  the subnormal range.

  \<open>round_half_even y\<close> is the integer nearest to \<open>y\<close>, a tie going to the even one.
\<close>

definition round_half_even :: "rat \<Rightarrow> int" where
  "round_half_even y =
     (let f = \<lfloor>y\<rfloor>; d = y - of_int f
      in if d < 1 / 2 then f
         else if 1 / 2 < d then f + 1
         else if even f then f else f + 1)"

text \<open>
  For \<open>0 < x\<close>, \<open>binary_exponent x\<close> is the \<open>e\<close> with \<open>2^e \<le> x < 2^(e+1)\<close>, read off
  the bit length of the integer part of \<open>x\<close>, or of \<open>1 / x\<close> when \<open>x < 1\<close>.
\<close>

definition binary_exponent :: "rat \<Rightarrow> int" where
  "binary_exponent x = (if 1 \<le> x then bitlen \<lfloor>x\<rfloor> - 1 else - bitlen (\<lceil>1 / x\<rceil> - 1))"

text \<open>
  \<open>fl x\<close> is the float nearest to \<open>x\<close>: the significand has 53 bits, so \<open>x\<close> is scaled
  to lie between \<open>2^52\<close> and \<open>2^53\<close>, rounded to an integer, and scaled back.
\<close>

definition fl :: "rat \<Rightarrow> rat" where
  "fl x =
     (if x = 0 then 0
      else let e = binary_exponent \<bar>x\<bar> - 52;
               m = round_half_even (\<bar>x\<bar> / 2 powi e)
           in sgn x * of_int m * 2 powi e)"

text \<open>
  Line 79 multiplies the integer \<open>w\<close> by a float: Python converts the integer to a
  float and multiplies the two floats.
\<close>

definition float_of_int :: "int \<Rightarrow> rat" where
  "float_of_int n = fl (of_int n)"

definition float_mul :: "rat \<Rightarrow> rat \<Rightarrow> rat" where
  "float_mul a b = fl (a * b)"

text \<open>
  \<^verbatim>\<open>CONVERSION_FACTOR = 0.2\<close> (centimetres per pixel): the float that the literal denotes,
  which is a little more than a fifth.
\<close>

definition CONVERSION_FACTOR :: rat where
  "CONVERSION_FACTOR = fl (2 / 10)"

text \<open>
  Python's \<^verbatim>\<open>round(x, ndigits)\<close> on a float: the exact value of \<open>x\<close> is rounded to the
  nearest multiple of \<open>10 ^ - ndigits\<close>, a tie going to the even one, and the float
  nearest to that decimal number is returned.
\<close>

definition py_round :: "rat \<Rightarrow> nat \<Rightarrow> rat" where
  "py_round x ndigits = fl (of_int (round_half_even (x * 10 ^ ndigits)) / 10 ^ ndigits)"

text \<open>
  Python's \<^verbatim>\<open>max(xs, key=k)\<close>: the running best is replaced only by an item whose
  key is strictly greater, and an empty sequence raises \<open>ValueError\<close>.
\<close>

fun max_loop :: "('a \<Rightarrow> rat) \<Rightarrow> 'a \<Rightarrow> 'a list \<Rightarrow> 'a" where
  "max_loop key best [] = best"
| "max_loop key best (x # xs) =
     (if key best < key x then max_loop key x xs else max_loop key best xs)"

definition py_max :: "('a \<Rightarrow> rat) \<Rightarrow> 'a list \<Rightarrow> exn + 'a" where
  "py_max key xs = (case xs of [] \<Rightarrow> Inl ValueError | x # rest \<Rightarrow> Inr (max_loop key x rest))"

text \<open>
  Modelled from the spec: \<^verbatim>\<open>cv2.contourArea\<close> is a library routine whose code is not
  in the program. The spec gives it as the polygon-area (shoelace) formula over the
  contour's ordered points: half the absolute value of the sum, over consecutive points
  \<open>prev\<close>, \<open>p\<close> of the closed path, of \<open>prev.x * p.y - p.x * prev.y\<close>. The path is
  closed by starting \<open>prev\<close> at the last point; no points give area 0.
\<close>

fun shoelace :: "point \<Rightarrow> contour \<Rightarrow> int" where
  "shoelace prev [] = 0"
| "shoelace prev (p # ps) = (fst prev * snd p - fst p * snd prev) + shoelace p ps"

definition contourArea :: "contour \<Rightarrow> rat" where
  "contourArea c = (if c = [] then 0 else \<bar>of_int (shoelace (last c) c)\<bar> / 2)"

text \<open>
  Modelled from the spec: \<^verbatim>\<open>cv2.boundingRect\<close> is a library routine whose code is not
  in the program. The spec gives it as the minimal axis-aligned rectangle enclosing the
  contour's points, found from the minima and maxima of their coordinates. The result
  is \<open>(x, y, w, h)\<close> with \<open>(x, y)\<close> the corner of least coordinates; width and height
  count the pixel columns and rows covered, both ends included. No points give the empty
  rectangle.
\<close>

definition boundingRect :: "contour \<Rightarrow> int \<times> int \<times> int \<times> int" where
  "boundingRect c =
     (if c = [] then (0, 0, 0, 0)
      else let xs = map fst c; ys = map snd c;
               xmin = Min (set xs); xmax = Max (set xs);
               ymin = Min (set ys); ymax = Max (set ys)
           in (xmin, ymin, xmax - xmin + 1, ymax - ymin + 1))"

text \<open>
  The body of the \<^verbatim>\<open>try\<close> block of \<^verbatim>\<open>calculate_foot_size\<close> (lines 49 to 87). It
  returns \<open>Inl e\<close> where the source raises \<open>e\<close>, and otherwise the value the source
  returns; the world carries the messages logged so far.
\<close>

definition try_body :: "'a cv2 \<Rightarrow> path \<Rightarrow> world \<Rightarrow> (exn + rat option) \<times> world" where
  "try_body cv image_path s0 =
     (case imread cv (files s0 image_path) of
        Inl e \<Rightarrow> (Inl e, s0)
      | Inr None \<Rightarrow> (Inr None, logging ERROR (CouldNotLoad image_path) s0)
      | Inr (Some img) \<Rightarrow>
          let s1 = logging INFO (ImageLoaded image_path) s0 in
          (case cvtColor cv img COLOR_BGR2GRAY of
             Inl e \<Rightarrow> (Inl e, s1)
           | Inr gray \<Rightarrow>
          (case GaussianBlur cv gray (5, 5) 0 of
             Inl e \<Rightarrow> (Inl e, s1)
           | Inr blurred \<Rightarrow>
          (case Canny cv blurred 50 150 of
             Inl e \<Rightarrow> (Inl e, s1)
           | Inr edged \<Rightarrow>
          (case findContours cv edged RETR_EXTERNAL CHAIN_APPROX_SIMPLE of
             Inl e \<Rightarrow> (Inl e, s1)
           | Inr contours \<Rightarrow>
               if contours \<noteq> [] then
                 (case py_max contourArea contours of
                    Inl e \<Rightarrow> (Inl e, s1)
                  | Inr largest_contour \<Rightarrow>
                      let s2 = logging INFO LargestContourFound s1;
                          (x, y, w, h) = boundingRect largest_contour;
                          s3 = logging INFO (BoundingBoxSize w h) s2;
                          foot_length_cm = float_mul (float_of_int w) CONVERSION_FACTOR;
                          s4 = logging INFO (FootSizeComputed foot_length_cm) s3
                      in (Inr (Some (py_round foot_length_cm 2)), s4))
               else (Inr None, logging WARNING NoContourFound s1))))))"

text \<open>
  \<^verbatim>\<open>calculate_foot_size\<close>: the \<^verbatim>\<open>try\<close> block with its handler
  \<^verbatim>\<open>except Exception\<close> (lines 89 to 91), which logs the exception and returns \<open>None\<close>.
\<close>

definition calculate_foot_size :: "'a cv2 \<Rightarrow> path \<Rightarrow> world \<Rightarrow> rat option \<times> world" where
  "calculate_foot_size cv image_path s0 =
     (case try_body cv image_path s0 of
        (Inr r, s) \<Rightarrow> (r, s)
      | (Inl e, s) \<Rightarrow> (None, logging ERROR (CalculationError e) s))"

text \<open>
  The library stages of one run, without the logging: what the Contour Finder yields.
  \<open>Inl e\<close> when a stage raises, \<open>Inr None\<close> when the image cannot be loaded,
  \<open>Inr (Some contours)\<close> when \<^verbatim>\<open>cv2.findContours\<close> returns \<open>contours\<close>. It is the
  chain of calls of lines 50 to 67 read off \<open>try_body\<close>.
\<close>

definition run_stages :: "'a cv2 \<Rightarrow> bytes option \<Rightarrow> exn + contour list option" where
  "run_stages cv file =
     (case imread cv file of
        Inl e \<Rightarrow> Inl e
      | Inr None \<Rightarrow> Inr None
      | Inr (Some img) \<Rightarrow>
          (case cvtColor cv img COLOR_BGR2GRAY of
             Inl e \<Rightarrow> Inl e
           | Inr gray \<Rightarrow>
          (case GaussianBlur cv gray (5, 5) 0 of
             Inl e \<Rightarrow> Inl e
           | Inr blurred \<Rightarrow>
          (case Canny cv blurred 50 150 of
             Inl e \<Rightarrow> Inl e
           | Inr edged \<Rightarrow>
          (case findContours cv edged RETR_EXTERNAL CHAIN_APPROX_SIMPLE of
             Inl e \<Rightarrow> Inl e
           | Inr contours \<Rightarrow> Inr (Some contours))))))"

section \<open>The request handler\<close>

text \<open>
  \<^verbatim>\<open>allowed_file_type\<close>: the data URL starts with one of the two allowed prefixes.
\<close>

definition allowed_types :: "string list" where
  "allowed_types = [''data:image/png;'', ''data:image/jpeg;'']"

definition allowed_file_type :: "string \<Rightarrow> bool" where
  "allowed_file_type image_data = list_ex (\<lambda>mime_type. prefix mime_type image_data) allowed_types"

text \<open>
  \<^verbatim>\<open>image_data.split(",")[1]\<close>, used only when the string has a comma: the text
  between the first comma and the second one (or the end).
\<close>

definition split_comma_1 :: "string \<Rightarrow> string" where
  "split_comma_1 s =
     takeWhile (\<lambda>c. c \<noteq> CHR '','') (tl (dropWhile (\<lambda>c. c \<noteq> CHR '','') s))"

text \<open>
  Lines 110 and 111: the header of the data URL is dropped when there is a comma.
\<close>

definition strip_header :: "string \<Rightarrow> string" where
  "strip_header image_data =
     (if CHR '','' \<in> set image_data then split_comma_1 image_data else image_data)"

text \<open>
  The JSON answers of the handler. The message texts of the source, in order:
  "Nenhuma imagem fornecida.", "Tipo de imagem nao permitido. Apenas PNG ou JPG sao
  aceitos.", "Erro ao salvar a imagem.", "Imagem processada com sucesso!", "Nao foi
  possivel detectar o pe na imagem.", "Erro no processamento da imagem." (accents
  dropped here). \<open>foot_size_cm\<close> is \<open>None\<close> when the JSON object has no such key.
\<close>

datatype message =
    NoImageProvided
  | TypeNotAllowed
  | SaveError
  | ProcessedOk
  | FootNotFound
  | ProcessingError

record response =
  message :: message
  foot_size_cm :: "rat option"
  status :: nat

definition UPLOAD_FOLDER :: path where
  "UPLOAD_FOLDER = ''C:'' @ [CHR 0x5C] @ ''Users'' @ [CHR 0x5C] @ ''Douglas'' @ [CHR 0x5C]
     @ ''Desktop'' @ [CHR 0x5C] @ ''Testes'' @ [CHR 0x5C] @ ''base''"

definition path_join :: "path \<Rightarrow> string \<Rightarrow> path" where
  "path_join dir name = dir @ [CHR 0x5C] @ name"

text \<open>
  \<^verbatim>\<open>upload_image\<close>. The request body is the parsed JSON: \<open>None\<close> when
  \<^verbatim>\<open>get_json\<close> gives nothing, else an object with string values. \<open>b64decode\<close> is the
  library's decoder, which may raise, and \<open>uuid4_hex\<close> the fresh identifier drawn for
  the file name; both are parameters. Writing the file replaces the store's entry at
  the path and always succeeds here, so that the decoder is the one call of the
  handler's \<^verbatim>\<open>try\<close> block that raises; its exception gives the answer of lines 141
  to 143.
\<close>

definition upload_image ::
  "'a cv2 \<Rightarrow> (string \<Rightarrow> exn + bytes) \<Rightarrow> string \<Rightarrow> (string \<rightharpoonup> string) option \<Rightarrow> world
     \<Rightarrow> response \<times> world" where
  "upload_image cv b64decode uuid4_hex data s0 =
     (case (case data of None \<Rightarrow> None | Some d \<Rightarrow> d ''image'') of
        None \<Rightarrow>
          (\<lparr>message = NoImageProvided, foot_size_cm = None, status = 400\<rparr>,
           logging WARNING RequestWithoutImage s0)
      | Some image_data \<Rightarrow>
          if \<not> allowed_file_type image_data then
            (\<lparr>message = TypeNotAllowed, foot_size_cm = None, status = 400\<rparr>,
             logging ERROR ImageTypeNotAllowed s0)
          else
            (case b64decode (strip_header image_data) of
               Inl e \<Rightarrow>
                 (\<lparr>message = ProcessingError, foot_size_cm = None, status = 500\<rparr>,
                  logging ERROR (RequestError e) s0)
             | Inr image_bytes \<Rightarrow>
                 let s1 = logging INFO ImageDecoded s0;
                     unique_filename = ''captured_image_'' @ uuid4_hex @ ''.png'';
                     file_path = path_join UPLOAD_FOLDER unique_filename;
                     s2 = s1\<lparr>files := (files s1)(file_path \<mapsto> image_bytes)\<rparr>;
                     s3 = logging INFO (ImageSaved file_path) s2
                 in
                 if files s3 file_path = None then
                   (\<lparr>message = SaveError, foot_size_cm = None, status = 500\<rparr>,
                    logging ERROR SaveFailed s3)
                 else
                   (case calculate_foot_size cv file_path s3 of
                      (Some foot_size, s4) \<Rightarrow>
                        (\<lparr>message = ProcessedOk, foot_size_cm = Some foot_size, status = 200\<rparr>,
                         logging INFO (FootSizeSucceeded foot_size) s4)
                    | (None, s4) \<Rightarrow>
                        (\<lparr>message = FootNotFound, foot_size_cm = None, status = 400\<rparr>,
                         logging WARNING FootNotDetected s4))))"

section \<open>Derived notions and example inputs\<close>

text \<open>
  The value that lines 75 to 83 return for the selected contour: the width of its
  bounding rectangle times the conversion factor, rounded to two digits.
\<close>

definition measured :: "contour \<Rightarrow> rat" where
  "measured c =
     py_round (float_mul (float_of_int (fst (snd (snd (boundingRect c))))) CONVERSION_FACTOR) 2"

text \<open>
  A library for the examples. An image is carried as the bytes it was read from: the
  file \<open>''corrupt''\<close> cannot be loaded, the image \<open>''blank''\<close> has no contour, on
  \<open>''broken''\<close> the contour finder raises, and every other image has the three
  contours of \<open>example_contours\<close>. The other stages return their input.
\<close>

definition example_contours :: "contour list" where
  "example_contours =
     [[(5, 5), (6, 5)],
      [(0, 0), (3, 0), (3, 2), (0, 2)],
      [(3, 7), (5, 7), (5, 10), (3, 10)]]"

definition example_imread :: "bytes option \<Rightarrow> exn + bytes option" where
  "example_imread file =
     (case file of None \<Rightarrow> Inr None
      | Some b \<Rightarrow> if b = ''corrupt'' then Inr None else Inr (Some b))"

definition example_findContours :: "bytes \<Rightarrow> retr_mode \<Rightarrow> approx_mode \<Rightarrow> exn + contour list" where
  "example_findContours img mode method =
     (if img = ''blank'' then Inr []
      else if img = ''broken'' then Inl (Error ''cv2.error'')
      else Inr example_contours)"

definition example_cv :: "bytes cv2" where
  "example_cv =
     \<lparr>imread = example_imread,
      cvtColor = (\<lambda>img code. Inr img),
      GaussianBlur = (\<lambda>img ksize sigma. Inr img),
      Canny = (\<lambda>img low high. Inr img),
      findContours = example_findContours\<rparr>"

text \<open>
  A library that finds one contour, 3 pixels wide and 4 high, in every image it loads.
\<close>

definition narrow_contour :: contour where
  "narrow_contour = [(0, 0), (2, 0), (2, 3), (0, 3)]"

definition narrow_cv :: "bytes cv2" where
  "narrow_cv =
     \<lparr>imread = example_imread,
      cvtColor = (\<lambda>img code. Inr img),
      GaussianBlur = (\<lambda>img ksize sigma. Inr img),
      Canny = (\<lambda>img low high. Inr img),
      findContours = (\<lambda>img mode method. Inr [narrow_contour])\<rparr>"

definition example_world :: world where
  "example_world =
     \<lparr>files = [''foot.png'' \<mapsto> ''foot'', ''blank.png'' \<mapsto> ''blank'',
               ''corrupt.png'' \<mapsto> ''corrupt'', ''broken.png'' \<mapsto> ''broken''],
      logged = []\<rparr>"

text \<open>
  Example requests: the decoder of the examples returns the text after the comma as
  the bytes, so that the body names the image it uploads.
\<close>

definition example_b64decode :: "string \<Rightarrow> exn + bytes" where
  "example_b64decode s = (if s = ''!'' then Inl (Error ''binascii.Error'') else Inr s)"

definition example_request :: "string \<Rightarrow> (string \<rightharpoonup> string) option" where
  "example_request payload = Some [''image'' \<mapsto> ''data:image/png;base64,'' @ payload]"

definition empty_world :: world where
  "empty_world = \<lparr>files = Map.empty, logged = []\<rparr>"

section \<open>Library stages described by the spec\<close>

text \<open>
  Two claims are about what a library stage computes. The code of these stages is not
  in the program, which only calls them; they are modelled here from the spec's
  description, apart from the parameters of \<open>cv2\<close> above, which stand for whatever the
  library does.
\<close>

type_synonym grid = "nat list list"

datatype pipeline_error = InvalidImage

subsection \<open>Smoothing\<close>

text \<open>
  Modelled from the spec: \<^verbatim>\<open>cv2.GaussianBlur\<close> is a library routine whose code is not
  in the program. The spec gives \<open>smooth\<close> as a separable Gaussian blur with a square
  kernel of odd size, failing with \<open>InvalidImage\<close> on a grid of zero width or height.
  A grid is the list of its rows. The blur is a pass along the rows followed by a pass
  along the columns with the same one-dimensional weights, and the weighted sum is
  divided by the total weight, rounded to the nearest intensity. The spec fixes neither
  the weights nor what is read beyond the border: the weights (the Gaussian of the
  kernel size and sigma, scaled to naturals) and the border rule (which index inside
  the grid stands for an index outside) are parameters.
\<close>

definition weighted :: "nat list \<Rightarrow> (int \<Rightarrow> nat) \<Rightarrow> nat" where
  "weighted weights sample =
     (\<Sum>i\<leftarrow>[0..<length weights]. weights ! i * sample (int i - int (length weights div 2)))"

text \<open>
  \<open>weighted weights sample\<close> is the sum of \<open>weights ! i * sample d\<close> over the kernel,
  \<open>d\<close> being the offset of position \<open>i\<close> from the centre of the kernel.
\<close>

definition blur_rows :: "nat list \<Rightarrow> (nat \<Rightarrow> int \<Rightarrow> nat) \<Rightarrow> grid \<Rightarrow> grid" where
  "blur_rows weights border g =
     map (\<lambda>row. map (\<lambda>x. weighted weights (\<lambda>d. row ! border (length row) (int x + d)))
                     [0..<length row]) g"

definition blur_columns :: "nat list \<Rightarrow> (nat \<Rightarrow> int \<Rightarrow> nat) \<Rightarrow> grid \<Rightarrow> grid" where
  "blur_columns weights border g =
     map (\<lambda>y. map (\<lambda>x. weighted weights (\<lambda>d. g ! border (length g) (int y + d) ! x))
                   [0..<length (g ! y)]) [0..<length g]"

definition smooth :: "nat list \<Rightarrow> (nat \<Rightarrow> int \<Rightarrow> nat) \<Rightarrow> grid \<Rightarrow> pipeline_error + grid" where
  "smooth weights border g =
     (if g = [] \<or> [] \<in> set g then Inl InvalidImage
      else let total = sum_list weights * sum_list weights
           in Inr (map (map (\<lambda>a. (a + total div 2) div total))
                     (blur_columns weights border (blur_rows weights border g))))"

text \<open>
  The instance that the call of line 61 selects in the library: kernel size 5 with
  sigma 0 stands for the weights 1, 4, 6, 4, 1 (over 16), and the default border rule
  reflects the index at the border without repeating the border pixel.
\<close>

definition reflect101 :: "nat \<Rightarrow> int \<Rightarrow> nat" where
  "reflect101 n i =
     (if n \<le> 1 then 0
      else let p = 2 * (int n - 1); m = i mod p
           in nat (if m < int n then m else p - m))"

definition gaussian_kernel_5 :: "nat list" where
  "gaussian_kernel_5 = [1, 4, 6, 4, 1]"

subsection \<open>Hysteresis thresholding\<close>

text \<open>
  Modelled from the spec: \<^verbatim>\<open>cv2.Canny\<close> is a library routine whose code is not in the
  program. The spec gives \<open>detectEdges\<close> as the computation of intensity gradients,
  non-maximum suppression across the gradient direction, and hysteresis thresholding
  with two thresholds: pixels with gradient magnitude above \<open>high\<close> are edges, pixels
  above \<open>low\<close> but below \<open>high\<close> are edges only if connected (8-neighbour adjacency) to
  a pixel already classified as an edge. The spec does not say how gradients are
  computed or suppressed: the grid of gradient magnitudes that hysteresis sees is given
  by the parameter \<open>magnitude\<close>. A magnitude equal to \<open>high\<close>, on which the spec is
  silent, counts as not above \<open>high\<close>.

  A pixel is the pair of its column and row. Hysteresis starts from the list of pixels
  above \<open>high\<close> and, as long as there are any, appends the pixels above \<open>low\<close> that are
  not yet in the list and have a neighbour in it. The list is in order of
  classification.
\<close>

type_synonym pixel = "nat \<times> nat"

definition intensity :: "grid \<Rightarrow> pixel \<Rightarrow> nat" where
  "intensity g p = g ! snd p ! fst p"

definition pixels_of :: "grid \<Rightarrow> pixel list" where
  "pixels_of g = concat (map (\<lambda>y. map (\<lambda>x. (x, y)) [0..<length (g ! y)]) [0..<length g])"

definition adjacent8 :: "pixel \<Rightarrow> pixel \<Rightarrow> bool" where
  "adjacent8 p q \<longleftrightarrow>
     p \<noteq> q \<and> \<bar>int (fst p) - int (fst q)\<bar> \<le> 1 \<and> \<bar>int (snd p) - int (snd q)\<bar> \<le> 1"

definition newly_connected :: "grid \<Rightarrow> nat \<Rightarrow> pixel list \<Rightarrow> pixel list" where
  "newly_connected mag low es =
     filter (\<lambda>p. p \<notin> set es \<and> low < intensity mag p \<and> (\<exists>q \<in> set es. adjacent8 p q))
       (pixels_of mag)"

function hysteresis_loop :: "grid \<Rightarrow> nat \<Rightarrow> pixel list \<Rightarrow> pixel list" where
  "hysteresis_loop mag low es =
     (if newly_connected mag low es = [] then es
      else hysteresis_loop mag low (es @ newly_connected mag low es))"
  by pat_completeness auto

termination
proof (relation "measure (\<lambda>(mag, low, es). card (set (pixels_of mag) - set es))")
  show "wf (measure (\<lambda>(mag, low, es). card (set (pixels_of mag) - set es)))" by simp
next
  fix mag :: grid and low :: nat and es :: "pixel list"
  assume ne: "newly_connected mag low es \<noteq> []"
  then obtain p where p: "p \<in> set (newly_connected mag low es)"
    by (cases "newly_connected mag low es") auto
  then have "p \<in> set (pixels_of mag)" "p \<notin> set es"
    by (auto simp: newly_connected_def)
  with p have "set (pixels_of mag) - set (es @ newly_connected mag low es)
                 \<subset> set (pixels_of mag) - set es"
    by auto
  then have "card (set (pixels_of mag) - set (es @ newly_connected mag low es))
               < card (set (pixels_of mag) - set es)"
    by (intro psubset_card_mono) auto
  then show "((mag, low, es @ newly_connected mag low es), (mag, low, es))
               \<in> measure (\<lambda>(mag, low, es). card (set (pixels_of mag) - set es))"
    by simp
qed

declare hysteresis_loop.simps [simp del]

definition hysteresis :: "grid \<Rightarrow> nat \<Rightarrow> nat \<Rightarrow> pixel list" where
  "hysteresis mag low high =
     hysteresis_loop mag low (filter (\<lambda>p. high < intensity mag p) (pixels_of mag))"

definition detectEdges :: "(grid \<Rightarrow> grid) \<Rightarrow> grid \<Rightarrow> nat \<Rightarrow> nat \<Rightarrow> bool list list" where
  "detectEdges magnitude g low high =
     (let mag = magnitude g; es = hysteresis mag low high
      in map (\<lambda>y. map (\<lambda>x. (x, y) \<in> set es) [0..<length (mag ! y)]) [0..<length mag])"

text \<open>
  The invariant of the loop: every pixel of the list is a pixel of the grid, and is
  above \<open>high\<close> or is above \<open>low\<close> with a neighbour earlier in the list.
\<close>

definition justified :: "grid \<Rightarrow> nat \<Rightarrow> nat \<Rightarrow> pixel list \<Rightarrow> bool" where
  "justified mag low high es \<longleftrightarrow>
     (\<forall>pre p post. es = pre @ p # post \<longrightarrow>
        p \<in> set (pixels_of mag)
        \<and> (high < intensity mag p
            \<or> (low < intensity mag p \<and> (\<exists>q \<in> set pre. adjacent8 p q))))"

definition example_magnitudes :: grid where
  "example_magnitudes = [[200, 100, 100, 10, 100]]"

definition weak_pair :: grid where
  "weak_pair = [[100, 100]]"

section \<open>Basic facts about the model\<close>

lemma logging_files [simp]: "files (logging lv m s) = files s"
  by (simp add: logging_def)

lemma logging_logged [simp]: "logged (logging lv m s) = logged s @ [(lv, m)]"
  by (simp add: logging_def)

lemma py_max_Cons: "py_max key (x # xs) = Inr (max_loop key x xs)"
  by (simp add: py_max_def)

lemma py_max_nonempty: "xs \<noteq> [] \<Longrightarrow> \<exists>m. py_max key xs = Inr m"
  by (cases xs) (simp_all add: py_max_def)

lemma try_body_result:
  "fst (try_body cv p s) =
     (case run_stages cv (files s p) of
        Inl e \<Rightarrow> Inl e
      | Inr None \<Rightarrow> Inr None
      | Inr (Some cs) \<Rightarrow>
          (case cs of [] \<Rightarrow> Inr None
           | c # rest \<Rightarrow> Inr (Some (measured (max_loop contourArea c rest)))))"
  by (simp add: try_body_def run_stages_def measured_def py_max_def Let_def
      split: sum.splits option.splits list.splits prod.splits)

lemma try_body_files: "files (snd (try_body cv p s)) = files s"
  by (simp add: try_body_def Let_def split: sum.splits option.splits list.splits prod.splits)

lemma calculate_foot_size_result:
  "fst (calculate_foot_size cv p s) =
     (case run_stages cv (files s p) of
        Inl e \<Rightarrow> None
      | Inr None \<Rightarrow> None
      | Inr (Some cs) \<Rightarrow>
          (case cs of [] \<Rightarrow> None
           | c # rest \<Rightarrow> Some (measured (max_loop contourArea c rest))))"
proof -
  have "fst (calculate_foot_size cv p s) =
          (case fst (try_body cv p s) of Inl e \<Rightarrow> None | Inr r \<Rightarrow> r)"
    by (simp add: calculate_foot_size_def split: prod.splits sum.splits)
  then show ?thesis
    by (simp add: try_body_result split: sum.splits option.splits list.splits)
qed

lemma calculate_foot_size_files: "files (snd (calculate_foot_size cv p s)) = files s"
proof -
  have "files (snd (calculate_foot_size cv p s)) = files (snd (try_body cv p s))"
    by (simp add: calculate_foot_size_def split: prod.splits sum.splits)
  then show ?thesis by (simp add: try_body_files)
qed

lemma max_loop_ge_start: "key b \<le> key (max_loop key b xs)"
proof (induction xs arbitrary: b)
  case Nil
  show ?case by simp
next
  case (Cons x xs)
  from Cons.IH [of x] Cons.IH [of b] show ?case by (simp add: order.strict_implies_order order_trans)
qed

lemma max_loop_first_max:
  "\<exists>pre post. b # xs = pre @ max_loop key b xs # post
      \<and> (\<forall>y\<in>set pre. key y < key (max_loop key b xs))
      \<and> (\<forall>y\<in>set post. key y \<le> key (max_loop key b xs))"
proof (induction xs arbitrary: b)
  case Nil
  show ?case by (intro exI [of _ "[]"]) simp
next
  case (Cons x xs)
  show ?case
  proof (cases "key b < key x")
    case True
    define m where "m = max_loop key x xs"
    from Cons.IH [of x] obtain pre post where
      eq: "x # xs = pre @ m # post"
      and lt: "\<forall>y\<in>set pre. key y < key m"
      and le: "\<forall>y\<in>set post. key y \<le> key m" unfolding m_def by blast
    have res: "max_loop key b (x # xs) = m" using True by (simp add: m_def)
    have "key x \<le> key m" unfolding m_def by (rule max_loop_ge_start)
    with True have "key b < key m" by simp
    with lt have lt': "\<forall>y\<in>set (b # pre). key y < key m" by simp
    from eq have "b # x # xs = (b # pre) @ m # post" by simp
    with lt' le show ?thesis unfolding res by blast
  next
    case False
    define m where "m = max_loop key b xs"
    from Cons.IH [of b] obtain pre post where
      eq: "b # xs = pre @ m # post"
      and lt: "\<forall>y\<in>set pre. key y < key m"
      and le: "\<forall>y\<in>set post. key y \<le> key m" unfolding m_def by blast
    have res: "max_loop key b (x # xs) = m" using False by (simp add: m_def)
    show ?thesis
    proof (cases pre)
      case Nil
      with eq have "m = b" "post = xs" by simp_all
      with False le have "b # x # xs = [] @ m # (x # xs)"
        "\<forall>y\<in>set []. key y < key m" "\<forall>y\<in>set (x # xs). key y \<le> key m" by auto
      then show ?thesis unfolding res by blast
    next
      case (Cons p ps)
      with eq have p: "p = b" and xs: "xs = ps @ m # post" by simp_all
      from Cons lt p have "key b < key m" by simp
      with False have "key x < key m" by simp
      with lt Cons p have lt': "\<forall>y\<in>set (b # x # ps). key y < key m" by simp
      from xs have "b # x # xs = (b # x # ps) @ m # post" by simp
      with lt' le show ?thesis unfolding res by blast
    qed
  qed
qed

lemma boundingRect_nonempty:
  "c \<noteq> [] \<Longrightarrow> boundingRect c =
     (Min (fst ` set c), Min (snd ` set c),
      Max (fst ` set c) - Min (fst ` set c) + 1,
      Max (snd ` set c) - Min (snd ` set c) + 1)"
  by (simp add: boundingRect_def Let_def)

lemma boundingRect_width_nonneg: "0 \<le> fst (snd (snd (boundingRect c)))"
proof (cases "c = []")
  case True
  then show ?thesis by (simp add: boundingRect_def)
next
  case False
  then have "Min (fst ` set c) \<le> Max (fst ` set c)" by simp
  with False show ?thesis by (simp add: boundingRect_nonempty)
qed

lemma round_half_even_error: "\<bar>of_int (round_half_even y) - y\<bar> \<le> 1 / 2"
proof -
  have "of_int \<lfloor>y\<rfloor> \<le> y" "y < of_int \<lfloor>y\<rfloor> + 1" by linarith+
  then show ?thesis by (auto simp: round_half_even_def Let_def)
qed

lemma round_half_even_near:
  assumes "\<bar>y - of_int n\<bar> < 1 / 2"
  shows "round_half_even y = n"
proof (cases "of_int n \<le> y")
  case True
  with assms have "\<lfloor>y\<rfloor> = n" by (intro floor_unique) auto
  with assms True show ?thesis by (simp add: round_half_even_def Let_def)
next
  case False
  with assms have f: "\<lfloor>y\<rfloor> = n - 1" by (intro floor_unique) auto
  from assms False have "1 / 2 < y - of_int (n - 1)" by simp
  with f show ?thesis by (simp add: round_half_even_def Let_def)
qed

lemma round_half_even_of_int: "round_half_even (of_int n) = n"
  by (rule round_half_even_near) simp

lemma round_half_even_nonneg: "0 \<le> y \<Longrightarrow> 0 \<le> round_half_even y"
  by (auto simp: round_half_even_def Let_def)

lemma binary_exponent_bounds:
  assumes "0 < x"
  shows "2 powi binary_exponent x \<le> x" and "x < 2 powi (binary_exponent x + 1)"
proof -
  have "2 powi binary_exponent x \<le> x \<and> x < 2 powi (binary_exponent x + 1)"
  proof (cases "1 \<le> x")
    case True
    define n where "n = \<lfloor>x\<rfloor>"
    from True have n: "0 < n" by (simp add: n_def)
    define k where "k = nat (bitlen n - 1)"
    from n have b: "1 \<le> bitlen n" using bitlen_eq_zero_iff [of n] bitlen_nonneg [of n] by linarith
    then have k: "bitlen n - 1 = int k" "nat (bitlen n) = Suc k" by (simp_all add: k_def)
    from bitlen_bounds [OF n] have lo: "2 ^ k \<le> n" and hi: "n < 2 ^ Suc k"
      by (simp_all add: k)
    have e: "binary_exponent x = int k" using True k by (simp add: binary_exponent_def n_def)
    have "(2::rat) ^ k = of_int (2 ^ k)" by simp
    also have "\<dots> \<le> of_int n" using lo by (simp only: of_int_le_iff)
    also have "\<dots> \<le> x" by (simp add: n_def)
    finally have 1: "(2::rat) ^ k \<le> x" .
    from hi have "n + 1 \<le> 2 ^ Suc k" by simp
    then have "(of_int (n + 1) :: rat) \<le> of_int (2 ^ Suc k)" by (simp only: of_int_le_iff)
    moreover have "x < of_int (n + 1)" unfolding n_def by linarith
    ultimately have 2: "x < 2 ^ Suc k" by simp
    have "int k + 1 = int (Suc k)" by simp
    with 1 2 show ?thesis unfolding e by (simp only: power_int_of_nat)
  next
    case False
    define y where "y = 1 / x"
    from False assms have y1: "1 < y" by (simp add: y_def)
    define c where "c = \<lceil>y\<rceil>"
    from y1 have c2: "2 \<le> c" unfolding c_def by linarith
    then have c1: "0 < c - 1" by simp
    define k where "k = nat (bitlen (c - 1) - 1)"
    from c1 have b: "1 \<le> bitlen (c - 1)"
      using bitlen_eq_zero_iff [of "c - 1"] bitlen_nonneg [of "c - 1"] by linarith
    then have k: "bitlen (c - 1) = int (Suc k)" "nat (bitlen (c - 1)) = Suc k"
      "nat (bitlen (c - 1) - 1) = k"
      by (simp_all add: k_def)
    from bitlen_bounds [OF c1] have lo: "2 ^ k \<le> c - 1" and hi: "c - 1 < 2 ^ Suc k"
      by (simp_all only: k(2,3))
    have e: "binary_exponent x = - int (Suc k)"
      using False k by (simp add: binary_exponent_def c_def y_def)
    from hi have "c \<le> 2 ^ Suc k" by simp
    then have "(of_int c :: rat) \<le> of_int (2 ^ Suc k)" by (simp only: of_int_le_iff)
    moreover have "y \<le> of_int c" by (simp add: c_def)
    ultimately have yhi: "y \<le> 2 ^ Suc k" by simp
    from lo have "2 ^ k < c" by simp
    then have "(of_int (2 ^ k) :: rat) < y" unfolding c_def by (simp only: less_ceiling_iff)
    then have ylo: "2 ^ k < y" by simp
    have xy: "x = 1 / y" using assms by (simp add: y_def)
    have p1: "(2::rat) powi (- int (Suc k)) = 1 / 2 ^ Suc k"
      by (simp only: power_int_minus power_int_of_nat inverse_eq_divide)
    have p2: "(2::rat) powi (- int (Suc k) + 1) = 1 / 2 ^ k"
    proof -
      have "- int (Suc k) + 1 = - int k" by simp
      then show ?thesis by (simp only: power_int_minus power_int_of_nat inverse_eq_divide)
    qed
    from yhi y1 have "1 / 2 ^ Suc k \<le> 1 / y" by (intro divide_left_mono) auto
    then have A: "2 powi binary_exponent x \<le> x" unfolding e p1 by (simp only: xy)
    from ylo y1 have "1 / y < 1 / 2 ^ k" by (intro divide_strict_left_mono) auto
    then have B: "x < 2 powi (binary_exponent x + 1)" unfolding e p2 by (simp only: xy)
    from A B show ?thesis ..
  qed
  then show "2 powi binary_exponent x \<le> x" and "x < 2 powi (binary_exponent x + 1)" by simp_all
qed

lemma fl_pos:
  assumes "0 < x"
  shows "fl x = of_int (round_half_even (x / 2 powi (binary_exponent x - 52)))
                  * 2 powi (binary_exponent x - 52)"
  using assms by (simp add: fl_def Let_def)

lemma fl_nonneg:
  assumes "0 \<le> x"
  shows "0 \<le> fl x"
proof (cases "x = 0")
  case True
  then show ?thesis by (simp add: fl_def)
next
  case False
  with assms have x: "0 < x" by simp
  have s: "(0::rat) < 2 powi (binary_exponent x - 52)" by simp
  with x have "0 \<le> x / 2 powi (binary_exponent x - 52)" by simp
  then have "0 \<le> round_half_even (x / 2 powi (binary_exponent x - 52))"
    by (rule round_half_even_nonneg)
  then show ?thesis unfolding fl_pos [OF x] by simp
qed

lemma fl_error:
  assumes "0 < x"
  shows "\<bar>fl x - x\<bar> \<le> x / 2 ^ 53"
proof -
  define e where "e = binary_exponent x"
  define s :: rat where "s = 2 powi (e - 52)"
  define m where "m = round_half_even (x / s)"
  have s: "0 < s" by (simp add: s_def)
  have fl: "fl x = of_int m * s" unfolding m_def s_def e_def by (rule fl_pos [OF assms])
  have "\<bar>of_int m - x / s\<bar> \<le> 1 / 2" unfolding m_def by (rule round_half_even_error)
  then have "\<bar>of_int m - x / s\<bar> * s \<le> 1 / 2 * s" using s by (intro mult_right_mono) simp_all
  moreover have "\<bar>of_int m - x / s\<bar> * s = \<bar>of_int m * s - x\<bar>"
  proof -
    have "\<bar>of_int m - x / s\<bar> * s = \<bar>(of_int m - x / s) * s\<bar>" using s by (simp add: abs_mult)
    also have "(of_int m - x / s) * s = of_int m * s - x" using s by (simp add: field_simps)
    finally show ?thesis .
  qed
  ultimately have 1: "\<bar>fl x - x\<bar> \<le> s / 2" by (simp add: fl)
  have "s = 2 powi e / 2 ^ 52"
  proof -
    have "(2::rat) powi (e - 52) = 2 powi e * 2 powi (- 52)"
      by (subst power_int_add [symmetric]) simp_all
    also have "(2::rat) powi (- 52) = 1 / 2 ^ 52"
      by (simp add: power_int_minus inverse_eq_divide)
    finally show ?thesis by (simp add: s_def)
  qed
  moreover have "2 powi e \<le> x" unfolding e_def by (rule binary_exponent_bounds [OF assms])
  ultimately have "s \<le> x / 2 ^ 52" by (simp add: divide_right_mono)
  with 1 show ?thesis by simp
qed

lemma fl_of_int:
  assumes "0 \<le> n" and "n < 2 ^ 53"
  shows "fl (of_int n) = of_int n"
proof (cases "n = 0")
  case True
  then show ?thesis by (simp add: fl_def)
next
  case False
  with assms have n: "0 < n" by simp
  then have x: "(0::rat) < of_int n" by simp
  define e where "e = binary_exponent (of_int n)"
  have lo: "2 powi e \<le> (of_int n :: rat)"
    unfolding e_def by (rule binary_exponent_bounds [OF x])
  have e53: "e < 53"
  proof (rule ccontr)
    assume "\<not> e < 53"
    then have "53 \<le> e" by simp
    then have "(2::rat) powi 53 \<le> 2 powi e" by (intro power_int_increasing) simp_all
    with lo have "(2::rat) ^ 53 \<le> of_int n" by simp
    moreover from assms(2) have "(of_int n :: rat) < of_int (2 ^ 53)" by (simp only: of_int_less_iff)
    ultimately show False by simp
  qed
  define k where "k = nat (52 - e)"
  from e53 have k: "e - 52 = - int k" by (simp add: k_def)
  have s: "(2::rat) powi (e - 52) = 1 / 2 ^ k"
    unfolding k by (simp only: power_int_minus power_int_of_nat inverse_eq_divide)
  have "of_int n / (1 / 2 ^ k) = (of_int (n * 2 ^ k) :: rat)" by simp
  then have "round_half_even (of_int n / (1 / 2 ^ k)) = n * 2 ^ k"
    by (simp only: round_half_even_of_int)
  then show ?thesis
    unfolding fl_pos [OF x] e_def [symmetric] s by simp
qed

lemma float_of_int_exact: "0 \<le> n \<Longrightarrow> n < 2 ^ 53 \<Longrightarrow> float_of_int n = of_int n"
  by (simp add: float_of_int_def fl_of_int)

lemma CONVERSION_FACTOR_error: "\<bar>CONVERSION_FACTOR - 1 / 5\<bar> \<le> 1 / (5 * 2 ^ 53)"
proof -
  have "\<bar>fl (1 / 5) - 1 / 5\<bar> \<le> (1 / 5) / 2 ^ 53" by (rule fl_error) simp
  then show ?thesis by (simp add: CONVERSION_FACTOR_def)
qed

lemma product_rounds_to_fifths:
  assumes "0 \<le> w" and "w < 2 ^ 32"
  shows "round_half_even (float_mul (float_of_int w) CONVERSION_FACTOR * 10 ^ 2) = 20 * w"
proof (cases "w = 0")
  case True
  then show ?thesis
    by (simp add: float_mul_def float_of_int_def fl_def round_half_even_def)
next
  case False
  define W :: rat where "W = of_int w"
  define c where "c = CONVERSION_FACTOR"
  define u :: rat where "u = 2 ^ 53"
  from False assms have W: "1 \<le> W" by (simp add: W_def)
  from assms(2) have "(of_int w :: rat) < of_int (2 ^ 32)" by (simp only: of_int_less_iff)
  then have Whi: "W < 2 ^ 32" by (simp add: W_def)
  from assms have a: "float_of_int w = W"
    unfolding W_def by (intro float_of_int_exact) simp_all
  have u: "0 < u" by (simp add: u_def)
  have cerr: "\<bar>c - 1 / 5\<bar> \<le> 1 / (5 * u)"
    unfolding c_def u_def by (rule CONVERSION_FACTOR_error)
  have u_big: "(2::rat) \<le> u" by (simp add: u_def)
  then have small: "1 / (5 * u) \<le> 1 / 10" using u by (simp add: field_simps)
  with cerr have cpos: "1 / 10 \<le> c" and chi: "c \<le> 3 / 10" by (simp_all add: abs_le_iff)
  define y where "y = W * c"
  from W cpos have ypos: "0 < y" by (simp add: y_def)
  have "\<bar>y - W / 5\<bar> = W * \<bar>c - 1 / 5\<bar>"
  proof -
    have "y - W / 5 = W * (c - 1 / 5)" by (simp add: y_def algebra_simps)
    with W show ?thesis by (simp add: abs_mult)
  qed
  also have "\<dots> \<le> W * (1 / (5 * u))" using cerr W by (intro mult_left_mono) simp_all
  finally have yerr: "\<bar>y - W / 5\<bar> \<le> W / (5 * u)" by simp
  have "y \<le> W * (3 / 10)" unfolding y_def using chi W by (intro mult_left_mono) simp_all
  then have yhi: "y / u \<le> 3 * W / (10 * u)" using u by (simp add: field_simps)
  define z where "z = fl y"
  have "\<bar>z - y\<bar> \<le> y / 2 ^ 53" unfolding z_def by (rule fl_error [OF ypos])
  with yhi have zerr: "\<bar>z - y\<bar> \<le> 3 * W / (10 * u)" by (simp add: u_def)
  have "\<bar>z - W / 5\<bar> \<le> \<bar>z - y\<bar> + \<bar>y - W / 5\<bar>" by simp
  with zerr yerr have "\<bar>z - W / 5\<bar> \<le> 3 * W / (10 * u) + W / (5 * u)" by linarith
  also have "\<dots> = W / (2 * u)" using u by (simp add: field_simps)
  finally have tot: "\<bar>z - W / 5\<bar> \<le> W / (2 * u)" .
  have "\<bar>z * 10 ^ 2 - of_int (20 * w)\<bar> = 100 * \<bar>z - W / 5\<bar>"
  proof -
    have "z * 10 ^ 2 - of_int (20 * w) = 100 * (z - W / 5)" by (simp add: W_def)
    then have "\<bar>z * 10 ^ 2 - of_int (20 * w)\<bar> = \<bar>100 * (z - W / 5)\<bar>" by (simp only:)
    also have "\<dots> = 100 * \<bar>z - W / 5\<bar>" by (subst abs_mult) simp
    finally show ?thesis .
  qed
  also have "\<dots> \<le> 100 * (W / (2 * u))" using tot by simp
  also have "\<dots> = 50 * W / u" by simp
  also have "\<dots> < 50 * 2 ^ 32 / u" using Whi u by (simp add: divide_strict_right_mono)
  also have "\<dots> < 1 / 2" by (simp add: u_def)
  finally have "\<bar>z * 10 ^ 2 - of_int (20 * w)\<bar> < 1 / 2" .
  then have "round_half_even (z * 10 ^ 2) = 20 * w" by (rule round_half_even_near)
  then show ?thesis by (simp add: z_def y_def float_mul_def a c_def)
qed

lemma py_round_product:
  assumes "0 \<le> w" and "w < 2 ^ 32"
  shows "py_round (float_mul (float_of_int w) CONVERSION_FACTOR) 2 = fl (of_int w / 5)"
proof -
  have "(of_int (20 * w) :: rat) / 10 ^ 2 = of_int w / 5" by simp
  then show ?thesis
    unfolding py_round_def product_rounds_to_fifths [OF assms] by (simp only:)
qed

lemma product_nonneg: "0 \<le> w \<Longrightarrow> 0 \<le> float_mul (float_of_int w) CONVERSION_FACTOR"
  by (simp add: float_mul_def float_of_int_def CONVERSION_FACTOR_def fl_nonneg)

lemma py_round_hundredths:
  assumes "0 \<le> x"
  shows "\<exists>k. 0 \<le> k \<and> py_round x 2 = fl (of_int k / 100)"
proof -
  from assms have "0 \<le> round_half_even (x * 10 ^ 2)" by (intro round_half_even_nonneg) simp
  then show ?thesis unfolding py_round_def by (intro exI [of _ "round_half_even (x * 10 ^ 2)"]) simp
qed


lemma py_round_nearest:
  "\<exists>k. \<bar>x * 100 - of_int k\<bar> \<le> 1 / 2 \<and> py_round x 2 = fl (of_int k / 100)"
proof -
  have "\<bar>of_int (round_half_even (x * 10 ^ 2)) - x * 10 ^ 2\<bar> \<le> 1 / 2"
    by (rule round_half_even_error)
  then have "\<bar>x * 100 - of_int (round_half_even (x * 10 ^ 2))\<bar> \<le> 1 / 2"
    by (simp add: abs_minus_commute)
  then show ?thesis
    unfolding py_round_def by (intro exI [of _ "round_half_even (x * 10 ^ 2)"]) simp
qed

lemma product_at_3:
  "float_mul (float_of_int 3) CONVERSION_FACTOR = 5404319552844596 / 9007199254740992"
  by code_simp

lemma nearest_float_three_fifths: "fl (3 / 5) = 5404319552844595 / 9007199254740992"
  by code_simp

lemma narrow_measured: "measured narrow_contour = fl (3 / 5)"
  using py_round_product [of 3] by (simp add: measured_def boundingRect_def narrow_contour_def)

lemma measured_nonneg_hundredths: "\<exists>k. 0 \<le> k \<and> measured c = fl (of_int k / 100)"
  unfolding measured_def
  by (intro py_round_hundredths product_nonneg boundingRect_width_nonneg)

lemma try_body_logged_success:
  assumes "run_stages cv (files s p) = Inr (Some contours)"
    and "py_max contourArea contours = Inr c"
    and "boundingRect c = (x, y, w, h)"
  shows "logged (snd (try_body cv p s)) =
           logged s @ [(INFO, ImageLoaded p), (INFO, LargestContourFound),
                       (INFO, BoundingBoxSize w h),
                       (INFO, FootSizeComputed (float_mul (float_of_int w) CONVERSION_FACTOR))]"
    and "fst (try_body cv p s) = Inr (Some (py_round (float_mul (float_of_int w) CONVERSION_FACTOR) 2))"
proof -
  from assms(2) have ne: "contours \<noteq> []" by (auto simp: py_max_def)
  from assms(1) obtain img gray blurred edged where
    "imread cv (files s p) = Inr (Some img)"
    "cvtColor cv img COLOR_BGR2GRAY = Inr gray"
    "GaussianBlur cv gray (5, 5) 0 = Inr blurred"
    "Canny cv blurred 50 150 = Inr edged"
    "findContours cv edged RETR_EXTERNAL CHAIN_APPROX_SIMPLE = Inr contours"
    by (auto simp: run_stages_def split: sum.splits option.splits)
  with ne assms(2,3) show
    "logged (snd (try_body cv p s)) =
           logged s @ [(INFO, ImageLoaded p), (INFO, LargestContourFound),
                       (INFO, BoundingBoxSize w h),
                       (INFO, FootSizeComputed (float_mul (float_of_int w) CONVERSION_FACTOR))]"
    "fst (try_body cv p s) = Inr (Some (py_round (float_mul (float_of_int w) CONVERSION_FACTOR) 2))"
    by (simp_all add: try_body_def Let_def)
qed

lemma calculate_foot_size_of_try:
  "calculate_foot_size cv p s =
     (case fst (try_body cv p s) of
        Inr r \<Rightarrow> (r, snd (try_body cv p s))
      | Inl e \<Rightarrow> (None, logging ERROR (CalculationError e) (snd (try_body cv p s))))"
  by (simp add: calculate_foot_size_def split: prod.splits sum.splits)

lemma try_body_raises:
  "run_stages cv (files s p) = Inl e \<Longrightarrow> fst (try_body cv p s) = Inl e"
  by (simp add: try_body_result)

lemma calculate_foot_size_value:
  assumes "fst (calculate_foot_size cv p s) = Some v"
  shows "\<exists>k::int. 0 \<le> k \<and> v = fl (of_int k / 100)"
proof -
  from assms obtain c rest where
    v: "v = measured (max_loop contourArea c rest)"
    by (auto simp: calculate_foot_size_result split: sum.splits option.splits list.splits)
  from measured_nonneg_hundredths [of "max_loop contourArea c rest"] v show ?thesis by simp
qed

lemma upload_image_response:
  "fst (upload_image cv dec u d s) =
     (case (case d of None \<Rightarrow> None | Some m \<Rightarrow> m ''image'') of
        None \<Rightarrow> \<lparr>message = NoImageProvided, foot_size_cm = None, status = 400\<rparr>
      | Some image_data \<Rightarrow>
          if \<not> allowed_file_type image_data
          then \<lparr>message = TypeNotAllowed, foot_size_cm = None, status = 400\<rparr>
          else (case dec (strip_header image_data) of
                  Inl e \<Rightarrow> \<lparr>message = ProcessingError, foot_size_cm = None, status = 500\<rparr>
                | Inr image_bytes \<Rightarrow>
                    (case (case run_stages cv (Some image_bytes) of
                             Inl e \<Rightarrow> None
                           | Inr None \<Rightarrow> None
                           | Inr (Some cs) \<Rightarrow>
                               (case cs of [] \<Rightarrow> None
                                | c # rest \<Rightarrow> Some (measured (max_loop contourArea c rest)))) of
                       Some foot_size \<Rightarrow>
                         \<lparr>message = ProcessedOk, foot_size_cm = Some foot_size, status = 200\<rparr>
                     | None \<Rightarrow> \<lparr>message = FootNotFound, foot_size_cm = None, status = 400\<rparr>)))"
proof -
  have pair: "\<And>P Q x. (case x of (Some f, t) \<Rightarrow> P f t | (None, t) \<Rightarrow> Q t)
      = (case fst x of Some f \<Rightarrow> P f (snd x) | None \<Rightarrow> Q (snd x))"
    by (simp split: prod.splits option.splits)
  show ?thesis
    unfolding upload_image_def Let_def pair
    by (simp add: calculate_foot_size_result split: option.splits sum.splits)
qed

lemma try_body_no_contour:
  assumes "run_stages cv (files s p) = Inr (Some [])"
  shows "try_body cv p s
           = (Inr None, logging WARNING NoContourFound (logging INFO (ImageLoaded p) s))"
proof -
  from assms obtain img gray blurred edged where
    "imread cv (files s p) = Inr (Some img)"
    "cvtColor cv img COLOR_BGR2GRAY = Inr gray"
    "GaussianBlur cv gray (5, 5) 0 = Inr blurred"
    "Canny cv blurred 50 150 = Inr edged"
    "findContours cv edged RETR_EXTERNAL CHAIN_APPROX_SIMPLE = Inr []"
    by (auto simp: run_stages_def split: sum.splits option.splits)
  then show ?thesis by (simp add: try_body_def Let_def)
qed

lemma try_body_unloadable:
  assumes "run_stages cv (files s p) = Inr None"
  shows "try_body cv p s = (Inr None, logging ERROR (CouldNotLoad p) s)"
proof -
  from assms have "imread cv (files s p) = Inr None"
    by (auto simp: run_stages_def split: sum.splits option.splits)
  then show ?thesis by (simp add: try_body_def)
qed

lemma calculate_foot_size_None_iff:
  "fst (calculate_foot_size cv p s) = None \<longleftrightarrow>
     run_stages cv (files s p) = Inr (Some [])
     \<or> run_stages cv (files s p) = Inr None
     \<or> (\<exists>e. run_stages cv (files s p) = Inl e)"
  by (auto simp: calculate_foot_size_result split: sum.splits option.splits list.splits)

lemma no_contour_warning_iff:
  "\<exists>new. logged (snd (calculate_foot_size cv p s)) = logged s @ new
     \<and> ((WARNING, NoContourFound) \<in> set new \<longleftrightarrow> run_stages cv (files s p) = Inr (Some []))"
proof (cases "run_stages cv (files s p) = Inr (Some [])")
  case True
  then have "calculate_foot_size cv p s
        = (None, logging WARNING NoContourFound (logging INFO (ImageLoaded p) s))"
    by (simp add: calculate_foot_size_def try_body_no_contour)
  with True show ?thesis by simp
next
  case False
  then show ?thesis
    by (auto simp: calculate_foot_size_def try_body_def run_stages_def py_max_def Let_def
        split: sum.splits option.splits list.splits prod.splits)
qed


lemma example_strip: "strip_header (''data:image/png;base64,'' @ payload)
   = takeWhile (\<lambda>c. c \<noteq> CHR '','') payload"
  by (simp add: strip_header_def split_comma_1_def)

lemma example_allowed: "allowed_file_type (''data:image/png;base64,'' @ payload)"
  by (simp add: allowed_file_type_def allowed_types_def)

section \<open>The Candidate Selector\<close>

text \<open>
  C2. For every non-empty list of contours, \<^verbatim>\<open>max(contours, key=cv2.contourArea)\<close>
  does not raise and returns a contour \<open>c\<close> of the list: the list splits as
  \<open>pre @ c # post\<close>, every contour before \<open>c\<close> has a strictly smaller area and every
  contour after it has an area that is not greater. So \<open>c\<close> has the maximal area and is
  the first contour of that area.
\<close>

theorem largest_contour_first_max:
  assumes "contours \<noteq> []"
  shows "\<exists>c pre post. py_max contourArea contours = Inr c
           \<and> contours = pre @ c # post
           \<and> (\<forall>d\<in>set pre. contourArea d < contourArea c)
           \<and> (\<forall>d\<in>set post. contourArea d \<le> contourArea c)"
proof -
  from assms obtain b xs where contours: "contours = b # xs" by (cases contours) auto
  from max_loop_first_max [of b xs contourArea] contours show ?thesis
    by (simp add: py_max_def)
qed

text \<open>
  In the example list the second and third contours both have the maximal area 6; the
  second one is returned.
\<close>

theorem largest_contour_first_max_witness:
  "example_contours \<noteq> [] \<and> py_max contourArea example_contours = Inr [(0, 0), (3, 0), (3, 2), (0, 2)]"
  using largest_contour_first_max [of example_contours]
  by (simp add: example_contours_def py_max_def contourArea_def)


section \<open>The Measurer\<close>

text \<open>
  C1. When the stages yield contours and \<open>c\<close> is the one selected, with at least one
  point, \<^verbatim>\<open>cv2.boundingRect\<close> gives the rectangle spanned by the minima and maxima of
  the x and of the y coordinates of \<open>c\<close>, and \<^verbatim>\<open>calculate_foot_size\<close> returns the
  float product of the width of that rectangle and \<open>CONVERSION_FACTOR\<close>, rounded to two
  decimal digits. Rounding a float \<open>v\<close> to two digits gives the float nearest to
  \<open>k / 100\<close>, where \<open>k / 100\<close> is a multiple of a hundredth nearest to \<open>v\<close>. For a width below \<open>2^32\<close> (the coordinates of a
  point are 32-bit integers in the library) the product is the float nearest to the
  width times the factor and the value returned is the float nearest to a fifth of the
  width. The product is logged unrounded. The height is computed and logged, and is no
  part of the returned value: contours with the same x coordinates measure the same.
\<close>

theorem measurer_reports_width:
  assumes "run_stages cv (files s image_path) = Inr (Some contours)"
    and "py_max contourArea contours = Inr c"
    and "c \<noteq> []"
    and "boundingRect c = (x, y, w, h)"
  shows "x = Min (fst ` set c) \<and> y = Min (snd ` set c)
       \<and> w = Max (fst ` set c) - Min (fst ` set c) + 1
       \<and> h = Max (snd ` set c) - Min (snd ` set c) + 1
       \<and> fst (calculate_foot_size cv image_path s)
           = Some (py_round (float_mul (float_of_int w) CONVERSION_FACTOR) 2)
       \<and> (\<forall>v. \<exists>k. \<bar>v * 100 - of_int k\<bar> \<le> 1 / 2 \<and> py_round v 2 = fl (of_int k / 100))
       \<and> (w < 2 ^ 32 \<longrightarrow>
              float_mul (float_of_int w) CONVERSION_FACTOR = fl (of_int w * CONVERSION_FACTOR)
              \<and> py_round (float_mul (float_of_int w) CONVERSION_FACTOR) 2 = fl (of_int w / 5))
       \<and> logged (snd (calculate_foot_size cv image_path s)) =
           logged s @ [(INFO, ImageLoaded image_path), (INFO, LargestContourFound),
                       (INFO, BoundingBoxSize w h),
                       (INFO, FootSizeComputed (float_mul (float_of_int w) CONVERSION_FACTOR))]
       \<and> (\<forall>c'. map fst c' = map fst c \<longrightarrow> measured c' = measured c)"
proof -
  from assms(3,4) have box:
    "x = Min (fst ` set c)" "y = Min (snd ` set c)"
    "w = Max (fst ` set c) - Min (fst ` set c) + 1"
    "h = Max (snd ` set c) - Min (snd ` set c) + 1"
    by (simp_all add: boundingRect_nonempty)
  from try_body_logged_success [OF assms(1,2,4)]
  have res: "fst (calculate_foot_size cv image_path s)
           = Some (py_round (float_mul (float_of_int w) CONVERSION_FACTOR) 2)"
    and lg: "logged (snd (calculate_foot_size cv image_path s)) =
           logged s @ [(INFO, ImageLoaded image_path), (INFO, LargestContourFound),
                       (INFO, BoundingBoxSize w h),
                       (INFO, FootSizeComputed (float_mul (float_of_int w) CONVERSION_FACTOR))]"
    by (simp_all add: calculate_foot_size_of_try)
  have near: "\<forall>v. \<exists>k. \<bar>v * 100 - of_int k\<bar> \<le> 1 / 2 \<and> py_round v 2 = fl (of_int k / 100)"
    by (intro allI py_round_nearest)
  from boundingRect_width_nonneg [of c] assms(4) have w0: "0 \<le> w" by simp
  have small: "w < 2 ^ 32 \<longrightarrow>
              float_mul (float_of_int w) CONVERSION_FACTOR = fl (of_int w * CONVERSION_FACTOR)
              \<and> py_round (float_mul (float_of_int w) CONVERSION_FACTOR) 2 = fl (of_int w / 5)"
  proof
    assume lt: "w < 2 ^ 32"
    then have "w < 2 ^ 53" by simp
    with w0 have "float_of_int w = of_int w" by (rule float_of_int_exact)
    then have "float_mul (float_of_int w) CONVERSION_FACTOR = fl (of_int w * CONVERSION_FACTOR)"
      by (simp add: float_mul_def)
    with py_round_product [OF w0 lt]
    show "float_mul (float_of_int w) CONVERSION_FACTOR = fl (of_int w * CONVERSION_FACTOR)
              \<and> py_round (float_mul (float_of_int w) CONVERSION_FACTOR) 2 = fl (of_int w / 5)"
      by simp
  qed
  have indep: "\<forall>c'. map fst c' = map fst c \<longrightarrow> measured c' = measured c"
  proof (intro allI impI)
    fix c' :: contour
    assume eq: "map fst c' = map fst c"
    then have "set (map fst c') = set (map fst c)" by simp
    then have img: "fst ` set c' = fst ` set c" by simp
    from eq assms(3) have "c' \<noteq> []" by auto
    with assms(3) img show "measured c' = measured c"
      by (simp add: measured_def boundingRect_nonempty)
  qed
  from box res near small lg indep show ?thesis by blast
qed

text \<open>
  A contour 3 pixels wide and 4 high: the product of line 79 is the float
  0.6000000000000001, which is what is logged, and the value returned is the float 0.6.
\<close>

theorem measurer_reports_width_witness:
  "run_stages narrow_cv (files example_world ''foot.png'') = Inr (Some [narrow_contour])
   \<and> py_max contourArea [narrow_contour] = Inr narrow_contour
   \<and> boundingRect narrow_contour = (0, 0, 3, 4)
   \<and> fst (calculate_foot_size narrow_cv ''foot.png'' example_world)
       = Some (5404319552844595 / 9007199254740992)
   \<and> logged (snd (calculate_foot_size narrow_cv ''foot.png'' example_world))
       = [(INFO, ImageLoaded ''foot.png''), (INFO, LargestContourFound),
          (INFO, BoundingBoxSize 3 4),
          (INFO, FootSizeComputed (5404319552844596 / 9007199254740992))]"
proof -
  have h1: "run_stages narrow_cv (files example_world ''foot.png'')
              = Inr (Some [narrow_contour])"
    by (simp add: run_stages_def narrow_cv_def example_imread_def example_world_def)
  have h2: "py_max contourArea [narrow_contour] = Inr narrow_contour"
    by (simp add: py_max_def)
  have h3: "narrow_contour \<noteq> []" by (simp add: narrow_contour_def)
  have h4: "boundingRect narrow_contour = (0, 0, 3, 4)"
    by (simp add: boundingRect_def narrow_contour_def)
  have lt: "(3::int) < 2 ^ 32" by simp
  note t = measurer_reports_width [OF h1 h2 h3 h4]
  from t have r: "fst (calculate_foot_size narrow_cv ''foot.png'' example_world)
          = Some (py_round (float_mul (float_of_int 3) CONVERSION_FACTOR) 2)"
    by blast
  from t lt have v: "py_round (float_mul (float_of_int 3) CONVERSION_FACTOR) 2 = fl (of_int 3 / 5)"
    by blast
  from t have l: "logged (snd (calculate_foot_size narrow_cv ''foot.png'' example_world)) =
           logged example_world @ [(INFO, ImageLoaded ''foot.png''), (INFO, LargestContourFound),
                       (INFO, BoundingBoxSize 3 4),
                       (INFO, FootSizeComputed (float_mul (float_of_int 3) CONVERSION_FACTOR))]"
    by blast
  have e: "logged example_world = []" by (simp add: example_world_def)
  from h1 h2 h4 r v l show ?thesis
    unfolding product_at_3 e by (simp add: nearest_float_three_fifths)
qed

section \<open>Absent results\<close>

text \<open>
  C3, as the claim states it, fails in its last part. The claim has the empty set of
  contours as the only trigger of the absent result. For the file \<open>''corrupt.png''\<close>
  the image cannot be loaded, the Contour Finder is never reached, and the result is
  \<open>None\<close> all the same.
\<close>

theorem empty_contours_sole_trigger_counterexample:
  "fst (calculate_foot_size example_cv ''corrupt.png'' example_world) = None
   \<and> run_stages example_cv (files example_world ''corrupt.png'') \<noteq> Inr (Some [])"
  by (simp add: calculate_foot_size_result run_stages_def example_cv_def example_imread_def
      example_world_def)


text \<open>
  C3, amended. When the Contour Finder yields no contour, \<^verbatim>\<open>calculate_foot_size\<close>
  raises nothing and returns \<open>None\<close>, having logged the warning of line 86, and the
  handler answers status 400 with no \<open>foot_size_cm\<close> (never a zero). The empty set is
  one of three triggers of that result: \<open>None\<close> is returned exactly when no contour
  was found, or the image could not be loaded, or a stage raised. What the empty set
  alone triggers is the warning of line 86 among the messages the call logs.
\<close>

theorem no_contour_gives_none:
  "(run_stages cv (files s p) = Inr (Some []) \<longrightarrow>
      calculate_foot_size cv p s
        = (None, logging WARNING NoContourFound (logging INFO (ImageLoaded p) s)))
   \<and> (fst (calculate_foot_size cv p s) = None \<longleftrightarrow>
        run_stages cv (files s p) = Inr (Some [])
        \<or> run_stages cv (files s p) = Inr None
        \<or> (\<exists>e. run_stages cv (files s p) = Inl e))
   \<and> (d ''image'' = Some image_data \<and> allowed_file_type image_data
        \<and> dec (strip_header image_data) = Inr image_bytes
        \<and> run_stages cv (Some image_bytes) = Inr (Some []) \<longrightarrow>
        fst (upload_image cv dec u (Some d) s')
          = \<lparr>message = FootNotFound, foot_size_cm = None, status = 400\<rparr>)
   \<and> (\<exists>new. logged (snd (calculate_foot_size cv p s)) = logged s @ new
         \<and> ((WARNING, NoContourFound) \<in> set new
               \<longleftrightarrow> run_stages cv (files s p) = Inr (Some [])))"
proof (intro conjI impI)
  assume "run_stages cv (files s p) = Inr (Some [])"
  then show "calculate_foot_size cv p s
        = (None, logging WARNING NoContourFound (logging INFO (ImageLoaded p) s))"
    by (simp add: calculate_foot_size_def try_body_no_contour)
next
  show "fst (calculate_foot_size cv p s) = None \<longleftrightarrow>
        run_stages cv (files s p) = Inr (Some [])
        \<or> run_stages cv (files s p) = Inr None
        \<or> (\<exists>e. run_stages cv (files s p) = Inl e)"
    by (rule calculate_foot_size_None_iff)
next
  assume "d ''image'' = Some image_data \<and> allowed_file_type image_data
        \<and> dec (strip_header image_data) = Inr image_bytes
        \<and> run_stages cv (Some image_bytes) = Inr (Some [])"
  then show "fst (upload_image cv dec u (Some d) s')
          = \<lparr>message = FootNotFound, foot_size_cm = None, status = 400\<rparr>"
    by (simp add: upload_image_response)
next
  show "\<exists>new. logged (snd (calculate_foot_size cv p s)) = logged s @ new
         \<and> ((WARNING, NoContourFound) \<in> set new
               \<longleftrightarrow> run_stages cv (files s p) = Inr (Some []))"
    by (rule no_contour_warning_iff)
qed

text \<open>
  The picture \<open>''blank''\<close> has no contour.
\<close>

theorem no_contour_gives_none_witness:
  "run_stages example_cv (files example_world ''blank.png'') = Inr (Some [])
   \<and> calculate_foot_size example_cv ''blank.png'' example_world
       = (None, example_world\<lparr>logged := [(INFO, ImageLoaded ''blank.png''), (WARNING, NoContourFound)]\<rparr>)
   \<and> fst (upload_image example_cv example_b64decode ''1f'' (example_request ''blank'') empty_world)
       = \<lparr>message = FootNotFound, foot_size_cm = None, status = 400\<rparr>"
proof -
  have h: "run_stages example_cv (files example_world ''blank.png'') = Inr (Some [])"
    by (simp add: run_stages_def example_cv_def example_imread_def example_findContours_def
        example_world_def)
  have h2: "run_stages example_cv (Some ''blank'') = Inr (Some [])"
    by (simp add: run_stages_def example_cv_def example_imread_def example_findContours_def)
  have h3: "[''image'' \<mapsto> ''data:image/png;base64,'' @ ''blank''] ''image''
              = Some (''data:image/png;base64,'' @ ''blank'')" by simp
  have h4: "example_b64decode (strip_header (''data:image/png;base64,'' @ ''blank'')) = Inr ''blank''"
    unfolding example_strip by (simp add: example_b64decode_def)
  note t = no_contour_gives_none [of example_cv example_world "''blank.png''"
      "[''image'' \<mapsto> ''data:image/png;base64,'' @ ''blank'']"
      "''data:image/png;base64,'' @ ''blank''" example_b64decode "''blank''" "''1f''" empty_world]
  from t h have c: "calculate_foot_size example_cv ''blank.png'' example_world
        = (None, logging WARNING NoContourFound (logging INFO (ImageLoaded ''blank.png'') example_world))"
    by blast
  from t h2 h3 h4 example_allowed [of "''blank''"]
  have r: "fst (upload_image example_cv example_b64decode ''1f''
              (Some [''image'' \<mapsto> ''data:image/png;base64,'' @ ''blank'']) empty_world)
          = \<lparr>message = FootNotFound, foot_size_cm = None, status = 400\<rparr>"
    by blast
  from h c r show ?thesis
    by (simp add: example_request_def logging_def example_world_def)
qed

text \<open>
  C4, as the claim states it, fails. The upload \<open>''corrupt''\<close> cannot be loaded and
  the upload \<open>''blank''\<close> has no contour; the handler gives the same answer to both.
\<close>

theorem decode_failure_distinct_counterexample:
  "run_stages example_cv (Some ''corrupt'') = Inr None
   \<and> run_stages example_cv (Some ''blank'') = Inr (Some [])
   \<and> fst (upload_image example_cv example_b64decode ''1f'' (example_request ''corrupt'') empty_world)
       = fst (upload_image example_cv example_b64decode ''1f'' (example_request ''blank'') empty_world)"
proof -
  have r1: "run_stages example_cv (Some ''corrupt'') = Inr None"
    by (simp add: run_stages_def example_cv_def example_imread_def)
  have r2: "run_stages example_cv (Some ''blank'') = Inr (Some [])"
    by (simp add: run_stages_def example_cv_def example_imread_def example_findContours_def)
  have d1: "example_b64decode (strip_header (''data:image/png;base64,'' @ ''corrupt''))
              = Inr ''corrupt''"
    unfolding example_strip by (simp add: example_b64decode_def)
  have d2: "example_b64decode (strip_header (''data:image/png;base64,'' @ ''blank''))
              = Inr ''blank''"
    unfolding example_strip by (simp add: example_b64decode_def)
  have u1: "fst (upload_image example_cv example_b64decode ''1f'' (example_request ''corrupt'')
                  empty_world)
              = \<lparr>message = FootNotFound, foot_size_cm = None, status = 400\<rparr>"
    unfolding upload_image_response example_request_def
    by (simp only: option.case fun_upd_same if_not_P example_allowed d1 sum.case r1 simp_thms)
  have u2: "fst (upload_image example_cv example_b64decode ''1f'' (example_request ''blank'')
                  empty_world)
              = \<lparr>message = FootNotFound, foot_size_cm = None, status = 400\<rparr>"
    unfolding upload_image_response example_request_def
    by (simp only: option.case fun_upd_same if_not_P example_allowed d2 sum.case r2 list.case
        simp_thms)
  from r1 r2 u1 u2 show ?thesis by simp
qed

text \<open>
  C4, amended. For a request that passes the type check and the decoder, an image that
  cannot be loaded and an image without contours get the same answer: status 400 with
  the message of line 139 and no \<open>foot_size_cm\<close>. The two cases differ only in what
  is logged: the error of line 52 in the first, the messages of lines 55 and 86 in the
  second.
\<close>

theorem decode_failure_same_response:
  assumes "d ''image'' = Some image_data" and "allowed_file_type image_data"
    and "dec (strip_header image_data) = Inr image_bytes"
    and "file_path = path_join UPLOAD_FOLDER (''captured_image_'' @ u @ ''.png'')"
  shows "(run_stages cv (Some image_bytes) = Inr None \<longrightarrow>
            fst (upload_image cv dec u (Some d) s)
              = \<lparr>message = FootNotFound, foot_size_cm = None, status = 400\<rparr>
          \<and> logged (snd (upload_image cv dec u (Some d) s))
              = logged s @ [(INFO, ImageDecoded), (INFO, ImageSaved file_path),
                            (ERROR, CouldNotLoad file_path), (WARNING, FootNotDetected)])
       \<and> (run_stages cv (Some image_bytes) = Inr (Some []) \<longrightarrow>
            fst (upload_image cv dec u (Some d) s)
              = \<lparr>message = FootNotFound, foot_size_cm = None, status = 400\<rparr>
          \<and> logged (snd (upload_image cv dec u (Some d) s))
              = logged s @ [(INFO, ImageDecoded), (INFO, ImageSaved file_path),
                            (INFO, ImageLoaded file_path), (WARNING, NoContourFound),
                            (WARNING, FootNotDetected)])"
proof (intro conjI impI)
  define s3 where "s3 = logging INFO (ImageSaved file_path)
                 ((logging INFO ImageDecoded s)
                    \<lparr>files := (files s)(file_path \<mapsto> image_bytes)\<rparr>)"
  have f3: "files s3 file_path = Some image_bytes" by (simp add: s3_def)
  have l3: "logged s3 = logged s @ [(INFO, ImageDecoded), (INFO, ImageSaved file_path)]"
    by (simp add: s3_def)
  have up: "upload_image cv dec u (Some d) s =
      (case calculate_foot_size cv file_path s3 of
            (Some foot_size, s4) \<Rightarrow>
              (\<lparr>message = ProcessedOk, foot_size_cm = Some foot_size, status = 200\<rparr>,
               logging INFO (FootSizeSucceeded foot_size) s4)
          | (None, s4) \<Rightarrow>
              (\<lparr>message = FootNotFound, foot_size_cm = None, status = 400\<rparr>,
               logging WARNING FootNotDetected s4))"
    using assms(1,2,3) by (simp add: upload_image_def Let_def s3_def assms(4))
  {
    assume "run_stages cv (Some image_bytes) = Inr None"
    with f3 have "run_stages cv (files s3 file_path) = Inr None" by simp
    then have "calculate_foot_size cv file_path s3
        = (None, logging ERROR (CouldNotLoad file_path) s3)"
      by (simp add: calculate_foot_size_def try_body_unloadable)
    with up l3 show "fst (upload_image cv dec u (Some d) s)
              = \<lparr>message = FootNotFound, foot_size_cm = None, status = 400\<rparr>"
      and "logged (snd (upload_image cv dec u (Some d) s))
              = logged s @ [(INFO, ImageDecoded), (INFO, ImageSaved file_path),
                            (ERROR, CouldNotLoad file_path), (WARNING, FootNotDetected)]"
      by simp_all
  }
  {
    assume "run_stages cv (Some image_bytes) = Inr (Some [])"
    with f3 have "run_stages cv (files s3 file_path) = Inr (Some [])" by simp
    then have "calculate_foot_size cv file_path s3
        = (None, logging WARNING NoContourFound (logging INFO (ImageLoaded file_path) s3))"
      by (simp add: calculate_foot_size_def try_body_no_contour)
    with up l3 show "fst (upload_image cv dec u (Some d) s)
              = \<lparr>message = FootNotFound, foot_size_cm = None, status = 400\<rparr>"
      and "logged (snd (upload_image cv dec u (Some d) s))
              = logged s @ [(INFO, ImageDecoded), (INFO, ImageSaved file_path),
                            (INFO, ImageLoaded file_path), (WARNING, NoContourFound),
                            (WARNING, FootNotDetected)]"
      by simp_all
  }
qed

theorem decode_failure_same_response_witness:
  "run_stages example_cv (Some ''corrupt'') = Inr None
   \<and> fst (upload_image example_cv example_b64decode ''1f'' (example_request ''corrupt'')
            empty_world)
       = \<lparr>message = FootNotFound, foot_size_cm = None, status = 400\<rparr>
   \<and> logged (snd (upload_image example_cv example_b64decode ''1f'' (example_request ''corrupt'')
            empty_world))
       = [(INFO, ImageDecoded),
          (INFO, ImageSaved (path_join UPLOAD_FOLDER (''captured_image_'' @ ''1f'' @ ''.png''))),
          (ERROR, CouldNotLoad (path_join UPLOAD_FOLDER (''captured_image_'' @ ''1f'' @ ''.png''))),
          (WARNING, FootNotDetected)]"
proof -
  have r: "run_stages example_cv (Some ''corrupt'') = Inr None"
    by (simp add: run_stages_def example_cv_def example_imread_def)
  have h1: "[''image'' \<mapsto> ''data:image/png;base64,'' @ ''corrupt''] ''image''
              = Some (''data:image/png;base64,'' @ ''corrupt'')" by simp
  have h3: "example_b64decode (strip_header (''data:image/png;base64,'' @ ''corrupt''))
              = Inr ''corrupt''"
    unfolding example_strip by (simp add: example_b64decode_def)
  note t = decode_failure_same_response
      [where d = "[''image'' \<mapsto> ''data:image/png;base64,'' @ ''corrupt'']"
         and image_data = "''data:image/png;base64,'' @ ''corrupt''"
         and dec = example_b64decode and image_bytes = "''corrupt''"
         and u = "''1f''" and cv = example_cv and s = empty_world,
       OF h1 example_allowed h3 refl]
  from t r show ?thesis
    unfolding example_request_def by (simp add: empty_world_def)
qed

section \<open>Totality\<close>

text \<open>
  C10. For every library, path and world, \<^verbatim>\<open>calculate_foot_size\<close> returns \<open>None\<close>
  or a number rounded to two decimal digits: the float nearest to a non-negative
  multiple of a hundredth. An exception raised by
  any library stage is an exception of the \<^verbatim>\<open>try\<close> block, and every exception of
  the \<^verbatim>\<open>try\<close> block is logged by the handler and turned into the result \<open>None\<close>.
\<close>

theorem calculate_foot_size_total:
  "(fst (calculate_foot_size cv p s) = None
      \<or> (\<exists>k::int. 0 \<le> k \<and> fst (calculate_foot_size cv p s) = Some (fl (of_int k / 100))))
   \<and> (\<forall>e. run_stages cv (files s p) = Inl e \<longrightarrow> fst (try_body cv p s) = Inl e)
   \<and> (\<forall>e. fst (try_body cv p s) = Inl e \<longrightarrow>
          calculate_foot_size cv p s
            = (None, logging ERROR (CalculationError e) (snd (try_body cv p s))))"
proof (intro conjI allI impI)
  show "fst (calculate_foot_size cv p s) = None
      \<or> (\<exists>k::int. 0 \<le> k \<and> fst (calculate_foot_size cv p s) = Some (fl (of_int k / 100)))"
  proof (cases "fst (calculate_foot_size cv p s)")
    case None
    then show ?thesis by simp
  next
    case (Some v)
    from calculate_foot_size_value [OF Some] Some show ?thesis by auto
  qed
next
  fix e assume "run_stages cv (files s p) = Inl e"
  then show "fst (try_body cv p s) = Inl e" by (rule try_body_raises)
next
  fix e assume "fst (try_body cv p s) = Inl e"
  then show "calculate_foot_size cv p s
            = (None, logging ERROR (CalculationError e) (snd (try_body cv p s)))"
    by (simp add: calculate_foot_size_of_try)
qed

text \<open>
  On the picture \<open>''broken''\<close> the Contour Finder raises. For a contour 3 pixels wide
  the product of line 79 is the float 0.6000000000000001 and the value returned is the
  float nearest to 60 hundredths.
\<close>

theorem calculate_foot_size_total_witness:
  "run_stages example_cv (files example_world ''broken.png'') = Inl (Error ''cv2.error'')
   \<and> fst (try_body example_cv ''broken.png'' example_world) = Inl (Error ''cv2.error'')
   \<and> fst (calculate_foot_size example_cv ''broken.png'' example_world) = None
   \<and> logged (snd (calculate_foot_size example_cv ''broken.png'' example_world))
       = [(INFO, ImageLoaded ''broken.png''), (ERROR, CalculationError (Error ''cv2.error''))]
   \<and> fst (calculate_foot_size narrow_cv ''foot.png'' example_world) = Some (fl (of_int 60 / 100))
   \<and> float_mul (float_of_int 3) CONVERSION_FACTOR \<noteq> fl (of_int 60 / 100)"
proof -
  have h: "run_stages example_cv (files example_world ''broken.png'') = Inl (Error ''cv2.error'')"
    by (simp add: run_stages_def example_cv_def example_imread_def example_findContours_def
        example_world_def)
  from calculate_foot_size_total [of example_cv "''broken.png''" example_world] h
  have t: "fst (try_body example_cv ''broken.png'' example_world) = Inl (Error ''cv2.error'')"
    by blast
  with calculate_foot_size_total [of example_cv "''broken.png''" example_world]
  have c: "calculate_foot_size example_cv ''broken.png'' example_world
      = (None, logging ERROR (CalculationError (Error ''cv2.error''))
           (snd (try_body example_cv ''broken.png'' example_world)))"
    by blast
  have l: "logged (snd (try_body example_cv ''broken.png'' example_world))
      = [(INFO, ImageLoaded ''broken.png'')]"
    by (simp add: try_body_def example_cv_def example_imread_def example_findContours_def
        example_world_def)
  have n: "fst (calculate_foot_size narrow_cv ''foot.png'' example_world) = Some (fl (3 / 5))"
    by (simp add: calculate_foot_size_result run_stages_def narrow_cv_def example_imread_def
        example_world_def narrow_measured)
  have d: "float_mul (float_of_int 3) CONVERSION_FACTOR \<noteq> fl (3 / 5)"
    unfolding product_at_3 nearest_float_three_fifths by simp
  from h t c l n d show ?thesis by simp
qed

section \<open>Repeated invocations\<close>

text \<open>
  C8. A second call of \<^verbatim>\<open>calculate_foot_size\<close> on the same path, in the world the
  first call left, returns what the first returned. The call leaves the files as they
  were (it only appends to the log), and its result depends on the world through the
  contents of the file at the path alone. The answer of \<^verbatim>\<open>upload_image\<close> to a
  request is the same in every world and with every fresh file name. The library stages
  are functions here: that they return the same for the same input is part of the model.
\<close>

theorem measurement_idempotent:
  "fst (calculate_foot_size cv p (snd (calculate_foot_size cv p s)))
     = fst (calculate_foot_size cv p s)
   \<and> files (snd (calculate_foot_size cv p s)) = files s
   \<and> (files s p = files s' p' \<longrightarrow>
        fst (calculate_foot_size cv p s) = fst (calculate_foot_size cv p' s'))
   \<and> fst (upload_image cv dec u d s) = fst (upload_image cv dec u' d s')"
proof (intro conjI impI)
  show "fst (calculate_foot_size cv p (snd (calculate_foot_size cv p s)))
     = fst (calculate_foot_size cv p s)"
    by (simp add: calculate_foot_size_result calculate_foot_size_files)
  show "files (snd (calculate_foot_size cv p s)) = files s"
    by (rule calculate_foot_size_files)
  show "fst (calculate_foot_size cv p s) = fst (calculate_foot_size cv p' s')"
    if "files s p = files s' p'"
    using that by (simp add: calculate_foot_size_result)
  show "fst (upload_image cv dec u d s) = fst (upload_image cv dec u' d s')"
    by (simp only: upload_image_response)
qed

theorem measurement_idempotent_witness:
  "fst (calculate_foot_size example_cv ''foot.png''
          (snd (calculate_foot_size example_cv ''foot.png'' example_world)))
       = Some (fl (4 / 5))
   \<and> fst (calculate_foot_size example_cv ''foot.png'' example_world) = Some (fl (4 / 5))
   \<and> fst (upload_image example_cv example_b64decode ''1f'' (example_request ''foot'')
            example_world)
       = fst (upload_image example_cv example_b64decode ''2e'' (example_request ''foot'')
            empty_world)"
proof -
  have m: "measured [(0, 0), (3, 0), (3, 2), (0, 2)] = fl (4 / 5)"
    using py_round_product [of 4] by (simp add: measured_def boundingRect_def)
  have v: "fst (calculate_foot_size example_cv ''foot.png'' example_world) = Some (fl (4 / 5))"
    by (simp add: calculate_foot_size_result run_stages_def example_cv_def example_imread_def
        example_findContours_def example_world_def example_contours_def contourArea_def m)
  note t = measurement_idempotent
      [where cv = example_cv and p = "''foot.png''" and s = example_world
         and s' = empty_world and dec = example_b64decode and u = "''1f''" and u' = "''2e''"
         and d = "example_request ''foot''"]
  from t v show ?thesis by simp
qed

section \<open>Smoothing a uniform grid\<close>

lemma weighted_const: "weighted weights (\<lambda>d. v) = sum_list weights * v"
proof -
  have "weighted weights (\<lambda>d. v) = sum_list (map (\<lambda>a. a * v) (map ((!) weights) [0..<length weights]))"
    by (simp add: weighted_def comp_def)
  also have "\<dots> = sum_list (map (\<lambda>a. a * v) weights)" by (simp only: map_nth)
  also have "\<dots> = sum_list weights * v" by (simp add: sum_list_mult_const)
  finally show ?thesis .
qed

lemma weighted_cong:
  "(\<And>d. sample d = sample' d) \<Longrightarrow> weighted weights sample = weighted weights sample'"
  by (simp add: weighted_def)

lemma blur_rows_uniform:
  assumes "\<And>n i. 0 < n \<Longrightarrow> border n i < n"
  shows "blur_rows weights border (replicate h (replicate w v))
           = replicate h (replicate w (sum_list weights * v))"
proof -
  have row: "map (\<lambda>x. weighted weights (\<lambda>d. replicate w v ! border w (int x + d))) [0..<w]
               = replicate w (sum_list weights * v)"
  proof (cases "w = 0")
    case True
    then show ?thesis by simp
  next
    case False
    then have "\<And>x. weighted weights (\<lambda>d. replicate w v ! border w (int x + d))
                 = sum_list weights * v"
      using assms [of w] by (simp add: weighted_const)
    then show ?thesis by (simp add: map_replicate_const)
  qed
  show ?thesis by (simp add: blur_rows_def row)
qed

lemma blur_columns_uniform:
  assumes "\<And>n i. 0 < n \<Longrightarrow> border n i < n"
  shows "blur_columns weights border (replicate h (replicate w v))
           = replicate h (replicate w (sum_list weights * v))"
proof -
  let ?g = "replicate h (replicate w v)"
  have row: "map (\<lambda>x. weighted weights (\<lambda>d. ?g ! border h (int y + d) ! x)) [0..<length (?g ! y)]
               = replicate w (sum_list weights * v)" if "y < h" for y
  proof -
    from that have h: "0 < h" by simp
    have "weighted weights (\<lambda>d. ?g ! border h (int y + d) ! x) = sum_list weights * v"
      if "x < w" for x
      using that assms [OF h] by (simp add: weighted_const)
    with \<open>y < h\<close> show ?thesis by (intro nth_equalityI) simp_all
  qed
  have "blur_columns weights border ?g = map (\<lambda>y. replicate w (sum_list weights * v)) [0..<h]"
    unfolding blur_columns_def using row by (simp cong: map_cong)
  then show ?thesis by (simp add: map_replicate_const)
qed

lemma round_div_exact:
  assumes "0 < (n::nat)"
  shows "(n * v + n div 2) div n = v"
proof -
  from assms have "n div 2 < n" by simp
  then have "(n div 2) div n = 0" by simp
  with assms show ?thesis by simp
qed

lemma reflect101_in_range:
  assumes "0 < n"
  shows "reflect101 n i < n"
proof (cases "n \<le> 1")
  case True
  with assms show ?thesis by (simp add: reflect101_def)
next
  case False
  define p where "p = 2 * (int n - 1)"
  define m where "m = i mod p"
  from False have p: "0 < p" by (simp add: p_def)
  then have m: "0 \<le> m" "m < p" by (simp_all add: m_def)
  have "nat (if m < int n then m else p - m) < n"
    using m False by (auto simp: p_def)
  with False show ?thesis unfolding reflect101_def Let_def p_def m_def by simp
qed


text \<open>
  C9. For every grid of positive width and height whose pixels all hold the same
  intensity, \<open>smooth\<close> returns the grid itself, whatever the weights of the kernel
  (of positive total) and whatever the border rule, as long as the rule names an index
  inside the grid.
\<close>

theorem smooth_uniform:
  assumes "0 < w" and "0 < h" and "0 < sum_list weights"
    and "\<forall>n i. 0 < n \<longrightarrow> border n i < n"
  shows "smooth weights border (replicate h (replicate w v)) = Inr (replicate h (replicate w v))"
proof -
  from assms(4) have b: "\<And>n i. 0 < n \<Longrightarrow> border n i < n" by blast
  let ?S = "sum_list weights"
  have pos: "0 < ?S * ?S" using assms(3) by simp
  have valid: "\<not> (replicate h (replicate w v) = [] \<or> (\<exists>row \<in> set (replicate h (replicate w v)). row = []))"
    using assms(1,2) by auto
  have "blur_columns weights border (blur_rows weights border (replicate h (replicate w v)))
          = replicate h (replicate w (?S * (?S * v)))"
    by (simp only: blur_rows_uniform [OF b] blur_columns_uniform [OF b])
  moreover have "(?S * (?S * v) + ?S * ?S div 2) div (?S * ?S) = v"
    using round_div_exact [OF pos, of v] by (simp add: mult.assoc)
  ultimately show ?thesis
    unfolding smooth_def Let_def using assms(1,2) by simp
qed

text \<open>
  The 5 by 5 kernel of line 61 on a 3 by 2 grid of intensity 7.
\<close>

theorem smooth_uniform_witness:
  "smooth gaussian_kernel_5 reflect101 (replicate 2 (replicate 3 7)) = Inr [[7, 7, 7], [7, 7, 7]]"
proof -
  have b: "\<forall>n i. 0 < n \<longrightarrow> reflect101 n i < n" by (simp add: reflect101_in_range)
  have s: "0 < sum_list gaussian_kernel_5" by (simp add: gaussian_kernel_5_def)
  from smooth_uniform [of 3 2 gaussian_kernel_5 reflect101 7, OF _ _ s b]
  show ?thesis by (simp add: numeral_2_eq_2 numeral_3_eq_3)
qed


section \<open>Hysteresis\<close>

lemma in_pixels_of: "(x, y) \<in> set (pixels_of g) \<longleftrightarrow> y < length g \<and> x < length (g ! y)"
  by (force simp: pixels_of_def)

lemma hysteresis_loop_keeps: "set es \<subseteq> set (hysteresis_loop mag low es)"
proof (induction mag low es rule: hysteresis_loop.induct)
  case (1 mag low es)
  show ?case
  proof (cases "newly_connected mag low es = []")
    case True
    then show ?thesis by (subst hysteresis_loop.simps) simp
  next
    case False
    from 1 [OF False] have "set es \<subseteq> set (hysteresis_loop mag low (es @ newly_connected mag low es))"
      by simp
    with False show ?thesis by (subst hysteresis_loop.simps) simp
  qed
qed

lemma hysteresis_loop_closed:
  "newly_connected mag low (hysteresis_loop mag low es) = []"
proof (induction mag low es rule: hysteresis_loop.induct)
  case (1 mag low es)
  show ?case
  proof (cases "newly_connected mag low es = []")
    case True
    then show ?thesis by (subst hysteresis_loop.simps) simp
  next
    case False
    from 1 [OF False] False show ?thesis by (subst hysteresis_loop.simps) simp
  qed
qed

lemma justified_append:
  assumes "justified mag low high es"
  shows "justified mag low high (es @ newly_connected mag low es)"
  unfolding justified_def
proof (intro allI impI)
  fix pre p post
  assume eq: "es @ newly_connected mag low es = pre @ p # post"
  then consider (left) us where "es = pre @ p # us"
    | (right) us where "pre = es @ us" "newly_connected mag low es = us @ p # post"
    by (auto simp: append_eq_append_conv2 append_eq_Cons_conv Cons_eq_append_conv)
  then show "p \<in> set (pixels_of mag)
        \<and> (high < intensity mag p
            \<or> (low < intensity mag p \<and> (\<exists>q \<in> set pre. adjacent8 p q)))"
  proof cases
    case left
    with assms show ?thesis unfolding justified_def by blast
  next
    case right
    then have "p \<in> set (newly_connected mag low es)" by simp
    then have "p \<in> set (pixels_of mag)" "low < intensity mag p" "\<exists>q \<in> set es. adjacent8 p q"
      by (auto simp: newly_connected_def)
    with right(1) show ?thesis by auto
  qed
qed

lemma hysteresis_loop_justified:
  "justified mag low high es \<Longrightarrow> justified mag low high (hysteresis_loop mag low es)"
proof (induction mag low es rule: hysteresis_loop.induct)
  case (1 mag low es)
  show ?case
  proof (cases "newly_connected mag low es = []")
    case True
    with 1(2) show ?thesis by (subst hysteresis_loop.simps) simp
  next
    case False
    from 1(1) [OF False justified_append [OF 1(2)]] False
    show ?thesis by (subst hysteresis_loop.simps) simp
  qed
qed

lemma justified_strong:
  "justified mag low high (filter (\<lambda>p. high < intensity mag p) (pixels_of mag))"
  unfolding justified_def
proof (intro allI impI)
  fix pre p post
  assume "filter (\<lambda>p. high < intensity mag p) (pixels_of mag) = pre @ p # post"
  then have "p \<in> set (filter (\<lambda>p. high < intensity mag p) (pixels_of mag))" by simp
  then show "p \<in> set (pixels_of mag)
        \<and> (high < intensity mag p
            \<or> (low < intensity mag p \<and> (\<exists>q \<in> set pre. adjacent8 p q)))"
    by simp
qed

lemma hysteresis_justified: "justified mag low high (hysteresis mag low high)"
  unfolding hysteresis_def by (rule hysteresis_loop_justified [OF justified_strong])

lemma hysteresis_strong:
  "p \<in> set (pixels_of mag) \<Longrightarrow> high < intensity mag p \<Longrightarrow> p \<in> set (hysteresis mag low high)"
  unfolding hysteresis_def using hysteresis_loop_keeps by fastforce

lemma hysteresis_connected:
  assumes "p \<in> set (pixels_of mag)" and "low < intensity mag p"
    and "q \<in> set (hysteresis mag low high)" and "adjacent8 p q"
  shows "p \<in> set (hysteresis mag low high)"
proof (rule ccontr)
  assume "p \<notin> set (hysteresis mag low high)"
  with assms have "p \<in> set (newly_connected mag low (hysteresis mag low high))"
    by (auto simp: newly_connected_def)
  moreover have "newly_connected mag low (hysteresis mag low high) = []"
    unfolding hysteresis_def by (rule hysteresis_loop_closed)
  ultimately show False by simp
qed

lemma hysteresis_earlier:
  assumes "p \<in> set (hysteresis mag low high)"
  shows "p \<in> set (pixels_of mag)
     \<and> (\<exists>pre post. hysteresis mag low high = pre @ p # post
          \<and> (high < intensity mag p
              \<or> (low < intensity mag p \<and> (\<exists>q \<in> set pre. adjacent8 p q))))"
proof -
  from assms obtain pre post where "hysteresis mag low high = pre @ p # post"
    by (auto dest: split_list)
  with hysteresis_justified [of mag low high] show ?thesis
    unfolding justified_def by blast
qed

lemma distinct_pixel_rows:
  "distinct ys \<Longrightarrow> distinct (concat (map (\<lambda>y. map (\<lambda>x. (x, y)) [0..<n y]) ys))"
proof (induction ys)
  case Nil
  show ?case by simp
next
  case (Cons a ys)
  have "distinct (map (\<lambda>x. (x, a)) [0..<n a])" by (simp add: distinct_map inj_on_def)
  moreover from Cons have "distinct (concat (map (\<lambda>y. map (\<lambda>x. (x, y)) [0..<n y]) ys))" by simp
  moreover from Cons.prems have
    "set (map (\<lambda>x. (x, a)) [0..<n a]) \<inter> set (concat (map (\<lambda>y. map (\<lambda>x. (x, y)) [0..<n y]) ys)) = {}"
    by auto
  ultimately show ?case by simp
qed

lemma distinct_pixels_of: "distinct (pixels_of g)"
  unfolding pixels_of_def by (rule distinct_pixel_rows) simp

lemma distinct_newly_connected: "distinct es \<Longrightarrow> distinct (es @ newly_connected mag low es)"
  by (auto simp: newly_connected_def distinct_pixels_of)

lemma hysteresis_loop_distinct:
  "distinct es \<Longrightarrow> distinct (hysteresis_loop mag low es)"
proof (induction mag low es rule: hysteresis_loop.induct)
  case (1 mag low es)
  show ?case
  proof (cases "newly_connected mag low es = []")
    case True
    with 1(2) show ?thesis by (subst hysteresis_loop.simps) simp
  next
    case False
    from 1(1) [OF False distinct_newly_connected [OF 1(2)]] False
    show ?thesis by (subst hysteresis_loop.simps) simp
  qed
qed

lemma hysteresis_distinct: "distinct (hysteresis mag low high)"
  unfolding hysteresis_def by (rule hysteresis_loop_distinct) (simp add: distinct_pixels_of)


lemma detectEdges_nth:
  assumes "y < length (magnitude g)" and "x < length (magnitude g ! y)"
  shows "detectEdges magnitude g low high ! y ! x
           \<longleftrightarrow> (x, y) \<in> set (hysteresis (magnitude g) low high)"
  using assms by (simp add: detectEdges_def Let_def)

text \<open>
  C5. For thresholds \<open>low < high\<close> and every pixel of the grid, with the gradient
  magnitude that hysteresis sees: a pixel above \<open>high\<close> is an edge; a pixel above
  \<open>low\<close> and not above \<open>high\<close> is an edge exactly when one of its eight neighbours is
  an edge; a pixel not above \<open>low\<close> is no edge. The edges are the pixels of the
  classification list, in which no pixel occurs twice, and wherever a pixel stands in
  that list it is a pixel of the grid that is above \<open>high\<close>, or is above \<open>low\<close> and
  has a neighbour standing before it: an edge not above \<open>high\<close> is connected to a
  pixel already classified as an edge, and so, step by step, to one above \<open>high\<close>.
\<close>

theorem detectEdges_hysteresis:
  assumes "low < high"
    and "y < length (magnitude g)" and "x < length (magnitude g ! y)"
  shows "(high < magnitude g ! y ! x \<longrightarrow> detectEdges magnitude g low high ! y ! x)
       \<and> (low < magnitude g ! y ! x \<and> magnitude g ! y ! x \<le> high \<longrightarrow>
            (detectEdges magnitude g low high ! y ! x \<longleftrightarrow>
               (\<exists>x' y'. y' < length (magnitude g) \<and> x' < length (magnitude g ! y')
                  \<and> adjacent8 (x, y) (x', y') \<and> detectEdges magnitude g low high ! y' ! x')))
       \<and> (magnitude g ! y ! x \<le> low \<longrightarrow> \<not> detectEdges magnitude g low high ! y ! x)
       \<and> (detectEdges magnitude g low high ! y ! x
            \<longleftrightarrow> (x, y) \<in> set (hysteresis (magnitude g) low high))
       \<and> distinct (hysteresis (magnitude g) low high)
       \<and> (\<forall>pre p post. hysteresis (magnitude g) low high = pre @ p # post \<longrightarrow>
             p \<in> set (pixels_of (magnitude g))
             \<and> (high < intensity (magnitude g) p
                 \<or> (low < intensity (magnitude g) p \<and> (\<exists>q \<in> set pre. adjacent8 p q))))"
proof -
  define mag where "mag = magnitude g"
  define E where "E = set (hysteresis mag low high)"
  have P: "(x, y) \<in> set (pixels_of mag)"
    using assms(2,3) by (simp add: in_pixels_of mag_def)
  have m: "intensity mag (x, y) = mag ! y ! x" by (simp add: intensity_def)
  have here: "detectEdges magnitude g low high ! y ! x \<longleftrightarrow> (x, y) \<in> E"
    using assms(2,3) by (simp add: detectEdges_nth E_def mag_def)
  have there: "(\<exists>x' y'. y' < length (magnitude g) \<and> x' < length (magnitude g ! y')
                  \<and> adjacent8 (x, y) (x', y') \<and> detectEdges magnitude g low high ! y' ! x')
             \<longleftrightarrow> (\<exists>q \<in> E. adjacent8 (x, y) q)" (is "?L \<longleftrightarrow> ?R")
  proof
    assume ?L
    then obtain x' y' where "y' < length (magnitude g)" "x' < length (magnitude g ! y')"
      "adjacent8 (x, y) (x', y')" "detectEdges magnitude g low high ! y' ! x'" by blast
    then show ?R by (auto simp: detectEdges_nth E_def mag_def)
  next
    assume ?R
    then obtain q where q: "q \<in> E" "adjacent8 (x, y) q" by blast
    obtain x' y' where xy: "q = (x', y')" by (cases q)
    from q(1) have "q \<in> set (pixels_of mag)"
      unfolding E_def by (auto dest: hysteresis_earlier)
    with xy have "y' < length mag" "x' < length (mag ! y')" by (simp_all add: in_pixels_of)
    with q xy have "y' < length (magnitude g) \<and> x' < length (magnitude g ! y')
                  \<and> adjacent8 (x, y) (x', y') \<and> detectEdges magnitude g low high ! y' ! x'"
      by (simp add: detectEdges_nth E_def mag_def)
    then show ?L by blast
  qed
  have a: "high < mag ! y ! x \<longrightarrow> (x, y) \<in> E"
    using hysteresis_strong [OF P] by (simp add: E_def m)
  have b: "low < mag ! y ! x \<and> mag ! y ! x \<le> high \<longrightarrow>
             ((x, y) \<in> E \<longleftrightarrow> (\<exists>q \<in> E. adjacent8 (x, y) q))"
  proof (intro impI iffI)
    assume "low < mag ! y ! x \<and> mag ! y ! x \<le> high" and "(x, y) \<in> E"
    with hysteresis_earlier [of "(x, y)" mag low high]
    obtain pre post where "hysteresis mag low high = pre @ (x, y) # post"
      "\<exists>q \<in> set pre. adjacent8 (x, y) q"
      by (auto simp: E_def m)
    then show "\<exists>q \<in> E. adjacent8 (x, y) q" by (auto simp: E_def)
  next
    assume "low < mag ! y ! x \<and> mag ! y ! x \<le> high" and "\<exists>q \<in> E. adjacent8 (x, y) q"
    with hysteresis_connected [OF P] show "(x, y) \<in> E" by (auto simp: E_def m)
  qed
  have c: "mag ! y ! x \<le> low \<longrightarrow> (x, y) \<notin> E"
    using hysteresis_earlier [of "(x, y)" mag low high] assms(1) by (auto simp: E_def m)
  have d: "distinct (hysteresis mag low high)" by (rule hysteresis_distinct)
  have f: "\<forall>pre p post. hysteresis mag low high = pre @ p # post \<longrightarrow>
             p \<in> set (pixels_of mag)
             \<and> (high < intensity mag p
                 \<or> (low < intensity mag p \<and> (\<exists>q \<in> set pre. adjacent8 p q)))"
    using hysteresis_justified [of mag low high] unfolding justified_def .
  from a b c have abc:
    "(high < magnitude g ! y ! x \<longrightarrow> detectEdges magnitude g low high ! y ! x)
       \<and> (low < magnitude g ! y ! x \<and> magnitude g ! y ! x \<le> high \<longrightarrow>
            (detectEdges magnitude g low high ! y ! x \<longleftrightarrow>
               (\<exists>x' y'. y' < length (magnitude g) \<and> x' < length (magnitude g ! y')
                  \<and> adjacent8 (x, y) (x', y') \<and> detectEdges magnitude g low high ! y' ! x')))
       \<and> (magnitude g ! y ! x \<le> low \<longrightarrow> \<not> detectEdges magnitude g low high ! y ! x)"
    unfolding here there by (simp add: mag_def)
  from here have e: "detectEdges magnitude g low high ! y ! x
            \<longleftrightarrow> (x, y) \<in> set (hysteresis (magnitude g) low high)"
    by (simp add: E_def mag_def)
  from abc e d f show ?thesis unfolding mag_def by blast
qed

text \<open>
  One row of magnitudes 200, 100, 100, 10, 100 with thresholds 50 and 150: the first
  pixel is strong, the next two are connected to it, the fourth is too weak and the
  last one, though above \<open>low\<close>, has no edge beside it. And a row of two touching
  pixels of magnitude 100 with no pixel above \<open>high\<close>: neither is an edge.
\<close>

lemma example_edges: "detectEdges id example_magnitudes 50 150 = [[True, True, True, False, False]]"
  by code_simp

theorem detectEdges_hysteresis_witness:
  "(50::nat) < 150
   \<and> detectEdges id example_magnitudes 50 150 ! 0 ! 0
   \<and> detectEdges id example_magnitudes 50 150 ! 0 ! 1
   \<and> \<not> detectEdges id example_magnitudes 50 150 ! 0 ! 3
   \<and> \<not> detectEdges id example_magnitudes 50 150 ! 0 ! 4
   \<and> \<not> detectEdges id weak_pair 50 150 ! 0 ! 0
   \<and> \<not> detectEdges id weak_pair 50 150 ! 0 ! 1"
proof -
  have lt: "(50::nat) < 150" by simp
  have len: "0 < length (id example_magnitudes)" by (simp add: example_magnitudes_def)
  have x0: "0 < length (id example_magnitudes ! 0)"
    and x1: "1 < length (id example_magnitudes ! 0)"
    and x3: "3 < length (id example_magnitudes ! 0)"
    and x4: "4 < length (id example_magnitudes ! 0)"
    by (simp_all add: example_magnitudes_def)
  have m0: "id example_magnitudes ! 0 ! 0 = 200"
    and m1: "id example_magnitudes ! 0 ! 1 = 100"
    and m3: "id example_magnitudes ! 0 ! 3 = 10"
    and m4: "id example_magnitudes ! 0 ! 4 = 100"
    by (simp_all add: example_magnitudes_def)
  from detectEdges_hysteresis [where magnitude = id and g = example_magnitudes, OF lt len x0] m0
  have e0: "detectEdges id example_magnitudes 50 150 ! 0 ! 0" by simp
  have adj: "adjacent8 (1, 0) (0, 0)" by (simp add: adjacent8_def)
  from e0 adj len x0
  have "\<exists>x' y'. y' < length (id example_magnitudes) \<and> x' < length (id example_magnitudes ! y')
          \<and> adjacent8 (1, 0) (x', y') \<and> detectEdges id example_magnitudes 50 150 ! y' ! x'"
    by blast
  with detectEdges_hysteresis [where magnitude = id and g = example_magnitudes, OF lt len x1] m1
  have e1: "detectEdges id example_magnitudes 50 150 ! 0 ! 1" by simp
  from detectEdges_hysteresis [where magnitude = id and g = example_magnitudes, OF lt len x3] m3
  have e3: "\<not> detectEdges id example_magnitudes 50 150 ! 0 ! 3" by simp
  have alone: "\<not> (\<exists>x' y'. y' < length (id example_magnitudes)
          \<and> x' < length (id example_magnitudes ! y')
          \<and> adjacent8 (4, 0) (x', y') \<and> detectEdges id example_magnitudes 50 150 ! y' ! x')"
  proof
    assume "\<exists>x' y'. y' < length (id example_magnitudes)
          \<and> x' < length (id example_magnitudes ! y')
          \<and> adjacent8 (4, 0) (x', y') \<and> detectEdges id example_magnitudes 50 150 ! y' ! x'"
    then obtain x' y' where y': "y' < length (id example_magnitudes)"
      and x': "x' < length (id example_magnitudes ! y')"
      and ad: "adjacent8 (4, 0) (x', y')"
      and ed: "detectEdges id example_magnitudes 50 150 ! y' ! x'" by blast
    from y' have y0: "y' = 0" by (simp add: example_magnitudes_def)
    with x' have "x' < 5" by (simp add: example_magnitudes_def)
    moreover from ad y0 have "x' \<noteq> 4" "\<bar>4 - int x'\<bar> \<le> 1" by (simp_all add: adjacent8_def)
    ultimately have "x' = 3" by arith
    with ed y0 e3 show False by simp
  qed
  with detectEdges_hysteresis [where magnitude = id and g = example_magnitudes, OF lt len x4] m4
  have e4: "\<not> detectEdges id example_magnitudes 50 150 ! 0 ! 4" by simp
  have wlen: "0 < length (id weak_pair)" by (simp add: weak_pair_def)
  have w0: "0 < length (id weak_pair ! 0)" and w1: "1 < length (id weak_pair ! 0)"
    by (simp_all add: weak_pair_def)
  note t0 = detectEdges_hysteresis [where magnitude = id and g = weak_pair, OF lt wlen w0]
  note t1 = detectEdges_hysteresis [where magnitude = id and g = weak_pair, OF lt wlen w1]
  have none: "hysteresis (id weak_pair) 50 150 = []"
  proof (cases "hysteresis (id weak_pair) 50 150")
    case Nil
    then show ?thesis .
  next
    case (Cons p post)
    then have "hysteresis (id weak_pair) 50 150 = [] @ p # post" by simp
    with t0 have "p \<in> set (pixels_of (id weak_pair))
       \<and> (150 < intensity (id weak_pair) p
           \<or> (50 < intensity (id weak_pair) p \<and> (\<exists>q \<in> set []. adjacent8 p q)))"
      by blast
    then have p: "p \<in> set (pixels_of weak_pair)" and strong: "150 < intensity weak_pair p"
      by simp_all
    obtain a b where ab: "p = (a, b)" by (cases p)
    with p have inside: "b < length weak_pair \<and> a < length (weak_pair ! b)"
      by (simp add: in_pixels_of)
    then have "b = 0" by (simp add: weak_pair_def)
    with inside have "a < 2" by (simp add: weak_pair_def)
    then have "a = 0 \<or> a = 1" by arith
    with ab \<open>b = 0\<close> have "intensity weak_pair p = 100"
      by (auto simp: intensity_def weak_pair_def)
    with strong show ?thesis by simp
  qed
  from t0 none have f0: "\<not> detectEdges id weak_pair 50 150 ! 0 ! 0" by simp
  from t1 none have f1: "\<not> detectEdges id weak_pair 50 150 ! 0 ! 1" by simp
  from lt e0 e1 e3 e4 f0 f1 show ?thesis by blast
qed

end
